theory Spec2Isabelle
  imports Complex_Main "HOL-Library.Word" "HOL-Library.Sublist"
begin

section \<open>LDT1: the wire protocol, the path guard and the transfer pipeline\<close>

text \<open>
  A shallow embedding of \<^verbatim>\<open>Server/server.py\<close>, \<^verbatim>\<open>Client/Client.py\<close> and
  \<^verbatim>\<open>Client/CLI-Client.py\<close>. Python \<^verbatim>\<open>bytes\<close> are lists of 8-bit words, Python
  \<^verbatim>\<open>str\<close> values are HOL strings, Python integers are \<open>int\<close> (lengths and sizes,
  which cannot be negative, are \<open>nat\<close>). A raised exception is the \<open>Inl\<close> branch of a
  sum; its class decides which \<^verbatim>\<open>except\<close> clause catches it and its message is what
  \<^verbatim>\<open>str(e)\<close> returns.
\<close>

subsection \<open>Exceptions\<close>

datatype exn_class =
  ConnectionError | ValueError | FileNotFoundError | OSError | StructError
  | UnicodeDecodeError | UnicodeEncodeError | PlainException

datatype exn = Exn (cls: exn_class) (msg: string)

type_synonym bytes = "8 word list"

subsection \<open>Library functions the programs call\<close>

text \<open>
  The UTF-8 codec and the \<^verbatim>\<open>int()\<close> parser belong to the Python runtime, not to the
  repository. The model takes them as a parameter, so that every theorem below holds
  for whatever they compute. \<open>encode_utf8\<close> is \<^verbatim>\<open>s.encode('utf-8')\<close>, which raises
  \<^verbatim>\<open>UnicodeEncodeError\<close> on a string that holds a surrogate (a file name that is not
  valid UTF-8 reaches the server as such a string), and \<open>decode_strict\<close> is
  \<^verbatim>\<open>b.decode()\<close>, which raises \<^verbatim>\<open>UnicodeDecodeError\<close> (here: both return the text of
  the error on the left);
  \<open>decode_replace\<close> and \<open>decode_ignore\<close> are \<^verbatim>\<open>b.decode('utf-8', errors=...)\<close>,
  which never raise; \<open>to_int\<close> is \<^verbatim>\<open>int(s)\<close>, \<open>None\<close> where it raises
  \<^verbatim>\<open>ValueError\<close>.
\<close>

record pylib =
  encode_utf8 :: "string \<Rightarrow> string + bytes"
  decode_strict :: "bytes \<Rightarrow> string + string"
  decode_replace :: "bytes \<Rightarrow> string"
  decode_ignore :: "bytes \<Rightarrow> string"
  to_int :: "string \<Rightarrow> int option"

subsection \<open>Protocol constants\<close>

definition MAGIC :: bytes where
  "MAGIC = [0x4C, 0x44, 0x54, 0x31]"

definition TYPE_LIST :: int where "TYPE_LIST = 1"
definition TYPE_LIST_RESP :: int where "TYPE_LIST_RESP = 2"
definition TYPE_GET :: int where "TYPE_GET = 3"
definition TYPE_META :: int where "TYPE_META = 4"
definition TYPE_CHUNK :: int where "TYPE_CHUNK = 5"
definition TYPE_ERR :: int where "TYPE_ERR = 7"

definition CHUNK_SIZE :: nat where
  "CHUNK_SIZE = 1024 * 1024"

subsection \<open>Framing: \<^verbatim>\<open>pack\<close>\<close>

text \<open>
  \<^verbatim>\<open>struct.pack(">BI", t, n)\<close>: one unsigned byte, then an unsigned 32-bit integer,
  big-endian. It raises \<^verbatim>\<open>struct.error\<close> when an argument is out of range.
\<close>

definition be32 :: "nat \<Rightarrow> bytes" where
  "be32 n = [of_nat (n div 16777216 mod 256), of_nat (n div 65536 mod 256),
             of_nat (n div 256 mod 256), of_nat (n mod 256)]"

definition struct_pack_BI :: "int \<Rightarrow> nat \<Rightarrow> exn + bytes" where
  "struct_pack_BI t n =
     (if t < 0 \<or> 255 < t then Inl (Exn StructError ''ubyte format requires 0 <= number <= 255'')
      else if 4294967296 \<le> n then Inl (Exn StructError ''argument out of range'')
      else Inr (of_int t # be32 n))"

text \<open>\<^verbatim>\<open>struct.unpack(">BI", header)\<close> on a header of exactly five bytes.\<close>

fun struct_unpack_BI :: "bytes \<Rightarrow> (int \<times> nat) option" where
  "struct_unpack_BI [t, b0, b1, b2, b3] =
     Some (uint t, ((unat b0 * 256 + unat b1) * 256 + unat b2) * 256 + unat b3)"
| "struct_unpack_BI _ = None"

text \<open>\<^verbatim>\<open>pack\<close> is the same function in the three programs.\<close>

definition pack :: "int \<Rightarrow> bytes \<Rightarrow> exn + bytes" where
  "pack msg_type payload =
     (case struct_pack_BI msg_type (length payload) of
        Inl e \<Rightarrow> Inl e
      | Inr hdr \<Rightarrow> Inr (MAGIC @ hdr @ payload))"

subsection \<open>Sockets\<close>

text \<open>
  The inbound side of a connection is the list of what the next calls of
  \<^verbatim>\<open>sock.recv\<close> will meet: a segment of bytes that has arrived, a timeout or another
  fault (a reset, say), which make \<^verbatim>\<open>recv\<close> raise \<^verbatim>\<open>socket.timeout\<close> or another
  \<^verbatim>\<open>socket.error\<close> with a message. After the
  last event the peer has closed and \<^verbatim>\<open>recv\<close> returns \<^verbatim>\<open>b""\<close>. \<^verbatim>\<open>recv(k)\<close> returns
  at most \<open>k\<close> bytes of the first segment and leaves the rest of it in place, so a
  packet may arrive in any number of pieces (a segment without bytes is passed over:
  an empty result of \<^verbatim>\<open>recv\<close> means that the peer has closed). The outbound side records every buffer
  handed to \<^verbatim>\<open>sendall\<close>; \<open>sends_left\<close> bounds how many more calls succeed before the
  peer is gone (\<open>None\<close>: no bound).
\<close>

datatype event = Data bytes | Timeout | Fault string

datatype fault = TimedOut | Failed string

text \<open>\<^verbatim>\<open>str(e)\<close> of the exception \<^verbatim>\<open>recv\<close> raises.\<close>

fun fault_str :: "fault \<Rightarrow> string" where
  "fault_str TimedOut = ''timed out''"
| "fault_str (Failed m) = m"

record sock =
  inbound :: "event list"
  outbound :: "bytes list"
  sends_left :: "nat option"

fun recv_events :: "event list \<Rightarrow> nat \<Rightarrow> fault + (bytes \<times> event list)" where
  "recv_events [] k = Inr ([], [])"
| "recv_events (Timeout # es) k = Inl TimedOut"
| "recv_events (Fault m # es) k = Inl (Failed m)"
| "recv_events (Data d # es) k =
     (if d = [] then recv_events es k
      else if length d \<le> k then Inr (d, es)
      else Inr (take k d, Data (drop k d) # es))"

definition recv :: "sock \<Rightarrow> nat \<Rightarrow> fault + (bytes \<times> sock)" where
  "recv s k =
     (case recv_events (inbound s) k of
        Inl f \<Rightarrow> Inl f
      | Inr (d, es) \<Rightarrow> Inr (d, s\<lparr>inbound := es\<rparr>))"

definition sendall :: "sock \<Rightarrow> bytes \<Rightarrow> exn + sock" where
  "sendall s b =
     (case sends_left s of
        None \<Rightarrow> Inr (s\<lparr>outbound := outbound s @ [b]\<rparr>)
      | Some 0 \<Rightarrow> Inl (Exn ConnectionError ''Broken pipe'')
      | Some (Suc k) \<Rightarrow> Inr (s\<lparr>outbound := outbound s @ [b], sends_left := Some k\<rparr>))"

text \<open>The bytes that can still be read before a fault or the end of the stream.\<close>

fun avail :: "event list \<Rightarrow> bytes" where
  "avail [] = []"
| "avail (Data d # es) = d @ avail es"
| "avail (e # es) = []"

subsection \<open>\<^verbatim>\<open>recv_exact\<close>\<close>

text \<open>
  The three programs read \<open>n\<close> bytes with the same loop,
  \<^verbatim>\<open>while len(buf) < n: d = sock.recv(n - len(buf)); if not d: raise ...; buf += d\<close>,
  and differ in the exception that leaves it: \<open>on_fault\<close> is what the handler around
  \<^verbatim>\<open>recv\<close> raises for a fault, \<open>on_closed\<close> what finally leaves the loop after an
  empty read. With \<open>n = 0\<close> the loop body never runs and nothing is read.
\<close>

function recv_loop ::
  "(fault \<Rightarrow> exn) \<Rightarrow> exn \<Rightarrow> sock \<Rightarrow> nat \<Rightarrow> bytes \<Rightarrow> exn + (bytes \<times> sock)" where
  "recv_loop on_fault on_closed s n buf =
     (if length buf < n then
        (case recv s (n - length buf) of
           Inl f \<Rightarrow> Inl (on_fault f)
         | Inr (d, s') \<Rightarrow>
             if d = [] then Inl on_closed
             else recv_loop on_fault on_closed s' n (buf @ d))
      else Inr (buf, s))"
  by pat_completeness auto
termination
  by (relation "measure (\<lambda>(on_fault, on_closed, s, n, buf). n - length buf)")
    (auto simp: neq_Nil_conv)

declare recv_loop.simps [simp del]

text \<open>
  server.py, lines 25 to 36. The \<^verbatim>\<open>ConnectionError\<close> raised on an empty read is
  itself a \<^verbatim>\<open>socket.error\<close> (both are \<^verbatim>\<open>OSError\<close>), so the handler around it wraps
  it once more.
\<close>

definition recv_exact :: "sock \<Rightarrow> nat \<Rightarrow> exn + (bytes \<times> sock)" where
  "recv_exact s n =
     recv_loop (\<lambda>f. Exn ConnectionError (''Socket error: '' @ fault_str f))
       (Exn ConnectionError ''Socket error: Connection closed by peer'') s n []"

text \<open>
  Client.py, lines 23 to 32: a bare \<^verbatim>\<open>except\<close> turns every failure, its own
  \<^verbatim>\<open>ConnectionError("Closed")\<close> included, into \<^verbatim>\<open>ConnectionError("Timeout/Error")\<close>.
\<close>

definition client_recv_exact :: "sock \<Rightarrow> nat \<Rightarrow> exn + (bytes \<times> sock)" where
  "client_recv_exact s n =
     recv_loop (\<lambda>f. Exn ConnectionError ''Timeout/Error'')
       (Exn ConnectionError ''Timeout/Error'') s n []"

text \<open>
  CLI-Client.py, lines 68 to 82: a timeout becomes \<^verbatim>\<open>ConnectionError("Timeout")\<close>, any
  other exception, its own \<^verbatim>\<open>ConnectionError("Connection closed")\<close> included, is
  wrapped as \<^verbatim>\<open>"Receive error: ..."\<close>.
\<close>

definition cli_recv_exact :: "sock \<Rightarrow> nat \<Rightarrow> exn + (bytes \<times> sock)" where
  "cli_recv_exact s n =
     recv_loop
       (\<lambda>f. case f of TimedOut \<Rightarrow> Exn ConnectionError ''Timeout''
              | Failed m \<Rightarrow> Exn ConnectionError (''Receive error: '' @ m))
       (Exn ConnectionError ''Receive error: Connection closed'') s n []"

subsection \<open>\<^verbatim>\<open>recv_packet\<close>\<close>

text \<open>
  server.py, lines 38 to 48. The message of the bad-magic error
  carries the \<^verbatim>\<open>repr\<close> of the four bytes in Python; the model keeps its fixed part.
\<close>

definition recv_packet :: "sock \<Rightarrow> exn + ((int \<times> bytes) \<times> sock)" where
  "recv_packet s =
     (case recv_exact s 4 of
        Inl e \<Rightarrow> Inl e
      | Inr (magic, s1) \<Rightarrow>
          if magic \<noteq> MAGIC then Inl (Exn ValueError ''Invalid protocol magic'')
          else
            (case recv_exact s1 5 of
               Inl e \<Rightarrow> Inl e
             | Inr (header, s2) \<Rightarrow>
                 (case struct_unpack_BI header of
                    None \<Rightarrow> Inl (Exn StructError ''unpack requires a buffer of 5 bytes'')
                  | Some (t, plen) \<Rightarrow>
                      (case recv_exact s2 plen of
                         Inl e \<Rightarrow> Inl e
                       | Inr (payload, s3) \<Rightarrow> Inr ((t, payload), s3)))))"

text \<open>
  Client.py, lines 34 to 42. Whatever is raised inside, the reserved error type
  included, leaves as a \<^verbatim>\<open>ConnectionError\<close> carrying \<^verbatim>\<open>str(e)\<close>.
\<close>

definition client_recv_packet_body :: "pylib \<Rightarrow> sock \<Rightarrow> exn + ((int \<times> bytes) \<times> sock)" where
  "client_recv_packet_body lib s =
     (case client_recv_exact s 4 of
        Inl e \<Rightarrow> Inl e
      | Inr (magic, s1) \<Rightarrow>
          if magic \<noteq> MAGIC then Inl (Exn ValueError ''Bad Magic'')
          else
            (case client_recv_exact s1 5 of
               Inl e \<Rightarrow> Inl e
             | Inr (header, s2) \<Rightarrow>
                 (case struct_unpack_BI header of
                    None \<Rightarrow> Inl (Exn StructError ''unpack requires a buffer of 5 bytes'')
                  | Some (t, plen) \<Rightarrow>
                      (case client_recv_exact s2 plen of
                         Inl e \<Rightarrow> Inl e
                       | Inr (payload, s3) \<Rightarrow>
                           if t = TYPE_ERR then
                             (case decode_strict lib payload of
                                Inl m \<Rightarrow> Inl (Exn UnicodeDecodeError m)
                              | Inr text \<Rightarrow> Inl (Exn PlainException text))
                           else Inr ((t, payload), s3)))))"

definition client_recv_packet :: "pylib \<Rightarrow> sock \<Rightarrow> exn + ((int \<times> bytes) \<times> sock)" where
  "client_recv_packet lib s =
     (case client_recv_packet_body lib s of
        Inl e \<Rightarrow> Inl (Exn ConnectionError (msg e))
      | Inr r \<Rightarrow> Inr r)"

text \<open>
  CLI-Client.py, lines 84 to 95: the same, with the payload of an error packet decoded
  leniently and the message prefixed.
\<close>

definition cli_recv_packet_body :: "pylib \<Rightarrow> sock \<Rightarrow> exn + ((int \<times> bytes) \<times> sock)" where
  "cli_recv_packet_body lib s =
     (case cli_recv_exact s 4 of
        Inl e \<Rightarrow> Inl e
      | Inr (magic, s1) \<Rightarrow>
          if magic \<noteq> MAGIC then Inl (Exn ValueError ''Bad magic'')
          else
            (case cli_recv_exact s1 5 of
               Inl e \<Rightarrow> Inl e
             | Inr (header, s2) \<Rightarrow>
                 (case struct_unpack_BI header of
                    None \<Rightarrow> Inl (Exn StructError ''unpack requires a buffer of 5 bytes'')
                  | Some (t, plen) \<Rightarrow>
                      (case cli_recv_exact s2 plen of
                         Inl e \<Rightarrow> Inl e
                       | Inr (payload, s3) \<Rightarrow>
                           if t = TYPE_ERR then
                             Inl (Exn PlainException (decode_ignore lib payload))
                           else Inr ((t, payload), s3)))))"

definition cli_recv_packet :: "pylib \<Rightarrow> sock \<Rightarrow> exn + ((int \<times> bytes) \<times> sock)" where
  "cli_recv_packet lib s =
     (case cli_recv_packet_body lib s of
        Inl e \<Rightarrow> Inl (Exn ConnectionError (''Packet error: '' @ msg e))
      | Inr r \<Rightarrow> Inr r)"

subsection \<open>Paths: \<^verbatim>\<open>os.path\<close> on POSIX\<close>

text \<open>
  \<^verbatim>\<open>os.path\<close> is the Python library's, in its POSIX flavour (\<^verbatim>\<open>posixpath.py\<close>): the
  functions below follow that module line by line. (The Windows flavour hands
  \<^verbatim>\<open>abspath\<close> to the operating system and is not modelled.) \<open>cwd\<close> is what
  \<^verbatim>\<open>os.getcwd()\<close> returns.
\<close>

definition startswith :: "string \<Rightarrow> string \<Rightarrow> bool" where
  "startswith s p = prefix p s"

definition endswith :: "string \<Rightarrow> string \<Rightarrow> bool" where
  "endswith s p = suffix p s"

text \<open>\<^verbatim>\<open>s.lstrip(chars)\<close>: drop the leading characters that occur in \<open>chars\<close>.\<close>

definition lstrip :: "string \<Rightarrow> string \<Rightarrow> string" where
  "lstrip s chars = dropWhile (\<lambda>c. c \<in> set chars) s"

text \<open>\<^verbatim>\<open>s.split(c)\<close> for a separator of one character: never empty.\<close>

fun split_sep :: "char \<Rightarrow> string \<Rightarrow> string list" where
  "split_sep c [] = [[]]"
| "split_sep c (x # xs) =
     (if x = c then [] # split_sep c xs
      else (case split_sep c xs of
              [] \<Rightarrow> [[x]]
            | w # ws \<Rightarrow> (x # w) # ws))"

text \<open>\<^verbatim>\<open>sep.join(parts)\<close>.\<close>

fun join_sep :: "string \<Rightarrow> string list \<Rightarrow> string" where
  "join_sep sep [] = []"
| "join_sep sep [x] = x"
| "join_sep sep (x # y # ys) = x @ sep @ join_sep sep (y # ys)"

definition isabs :: "string \<Rightarrow> bool" where
  "isabs s = startswith s ''/''"

text \<open>\<^verbatim>\<open>posixpath.join(a, b)\<close> with one further component.\<close>

definition join :: "string \<Rightarrow> string \<Rightarrow> string" where
  "join a b =
     (if startswith b ''/'' then b
      else if a = [] \<or> endswith a ''/'' then a @ b
      else a @ ''/'' @ b)"

text \<open>
  \<^verbatim>\<open>posixpath.normpath\<close>. \<open>norm_step\<close> is the body of its loop over the components;
  \<open>initial_slashes\<close> is 0, 1 or 2.
\<close>

definition norm_step :: "nat \<Rightarrow> string list \<Rightarrow> string \<Rightarrow> string list" where
  "norm_step initial_slashes new_comps part =
     (if part = [] \<or> part = ''.'' then new_comps
      else if part \<noteq> ''..'' \<or> (initial_slashes = 0 \<and> new_comps = [])
              \<or> (new_comps \<noteq> [] \<and> last new_comps = ''..'')
      then new_comps @ [part]
      else if new_comps \<noteq> [] then butlast new_comps
      else new_comps)"

definition normpath :: "string \<Rightarrow> string" where
  "normpath path =
     (if path = [] then ''.''
      else
        let initial_slashes =
              (if startswith path ''/'' then
                 (if startswith path ''//'' \<and> \<not> startswith path ''///'' then 2 else 1)
               else 0 :: nat);
            comps = foldl (norm_step initial_slashes) [] (split_sep CHR ''/'' path);
            joined = replicate initial_slashes CHR ''/'' @ join_sep ''/'' comps
        in if joined = [] then ''.'' else joined)"

definition abspath :: "string \<Rightarrow> string \<Rightarrow> string" where
  "abspath cwd path = normpath (if isabs path then path else join cwd path)"

subsection \<open>Server: the path guard\<close>

text \<open>server.py, line 7: \<^verbatim>\<open>ROOT = os.path.abspath("D:/")\<close>.\<close>

definition ROOT :: "string \<Rightarrow> string" where
  "ROOT cwd = abspath cwd ''D:/''"

text \<open>
  \<^verbatim>\<open>safe_path\<close> (server.py, lines 50 to 61). The global \<^verbatim>\<open>ROOT\<close> is the parameter
  \<open>root_dir\<close>. The characters stripped are the backslash, the slash and the blank.
\<close>

definition safe_path :: "string \<Rightarrow> string \<Rightarrow> string \<Rightarrow> exn + string" where
  "safe_path root_dir cwd rel_path =
     (let rel = lstrip rel_path [CHR 0x5C, CHR ''/'', CHR '' ''];
          full = abspath cwd (join root_dir rel);
          root_prefix = join root_dir []
      in if \<not> startswith full root_prefix
         then Inl (Exn ValueError ''Security: Path traversal attempt blocked'')
         else Inr full)"

subsection \<open>The file system\<close>

text \<open>
  What the server asks of the operating system, each a function of the path string:
  \<^verbatim>\<open>os.path.isdir\<close> and \<^verbatim>\<open>os.path.isfile\<close> (which never raise), \<^verbatim>\<open>os.listdir\<close> and
  \<^verbatim>\<open>os.stat\<close> (\<open>None\<close> where they raise \<^verbatim>\<open>OSError\<close>, of which \<^verbatim>\<open>PermissionError\<close>
  is a subclass), and \<^verbatim>\<open>open(path, "rb")\<close>, which gives the bytes of the file as they
  are while it is read (\<open>None\<close> where it raises). The size \<^verbatim>\<open>stat\<close> reports and the
  length of what can be read are independent, as they are for a file that changes
  between the two calls. \<open>st_mtime\<close> holds the whole seconds, \<^verbatim>\<open>int(st.st_mtime)\<close>.
\<close>

record stat_result =
  st_size :: nat
  st_mtime :: int

record filesystem =
  isdir :: "string \<Rightarrow> bool"
  isfile :: "string \<Rightarrow> bool"
  listdir :: "string \<Rightarrow> string list option"
  stat :: "string \<Rightarrow> stat_result option"
  open_rb :: "string \<Rightarrow> bytes option"

subsection \<open>Server: \<^verbatim>\<open>list_dir\<close>\<close>

text \<open>The dictionaries \<^verbatim>\<open>list_dir\<close> builds, with the keys \<^verbatim>\<open>name\<close>, \<^verbatim>\<open>dir\<close>, \<^verbatim>\<open>size\<close>, \<^verbatim>\<open>mtime\<close>.\<close>

record dir_entry =
  e_name :: string
  e_dir :: bool
  e_size :: nat
  e_mtime :: int

text \<open>
  The body of the loop over \<^verbatim>\<open>os.listdir(full)\<close> (server.py, lines 72 to 82): \<open>None\<close>
  when \<^verbatim>\<open>os.stat\<close> raises and the entry is skipped.
\<close>

definition list_entry :: "filesystem \<Rightarrow> string \<Rightarrow> string \<Rightarrow> dir_entry option" where
  "list_entry fs full name =
     (let p = join full name in
      case stat fs p of
        None \<Rightarrow> None
      | Some st \<Rightarrow>
          Some \<lparr>e_name = name, e_dir = isdir fs p,
                e_size = (if \<not> isdir fs p then st_size st else 0),
                e_mtime = st_mtime st\<rparr>)"

text \<open>
  \<^verbatim>\<open>list_dir\<close> (server.py, lines 63 to 85): \<open>list_dir_try\<close> is what stands inside the
  outer \<^verbatim>\<open>try\<close>, \<open>list_dir\<close> adds its \<^verbatim>\<open>except Exception: return []\<close>.
\<close>

definition list_dir_try :: "string \<Rightarrow> string \<Rightarrow> filesystem \<Rightarrow> string \<Rightarrow> exn + dir_entry list" where
  "list_dir_try root_dir cwd fs rel_path =
     (case safe_path root_dir cwd rel_path of
        Inl e \<Rightarrow> Inl e
      | Inr full \<Rightarrow>
          if \<not> isdir fs full then Inr []
          else
            (case listdir fs full of
               None \<Rightarrow> Inl (Exn OSError ''listdir'')
             | Some names \<Rightarrow> Inr (List.map_filter (list_entry fs full) names)))"

definition list_dir :: "string \<Rightarrow> string \<Rightarrow> filesystem \<Rightarrow> string \<Rightarrow> dir_entry list" where
  "list_dir root_dir cwd fs rel_path =
     (case list_dir_try root_dir cwd fs rel_path of
        Inl e \<Rightarrow> []
      | Inr out \<Rightarrow> out)"

subsection \<open>Server: answering a request\<close>

text \<open>\<^verbatim>\<open>str(n)\<close> for an integer: its decimal digits.\<close>

fun str_nat :: "nat \<Rightarrow> string" where
  "str_nat n = (if n < 10 then [char_of (48 + n)] else str_nat (n div 10) @ [char_of (48 + n mod 10)])"

declare str_nat.simps [simp del]

definition str_int :: "int \<Rightarrow> string" where
  "str_int i = (if i < 0 then CHR ''-'' # str_nat (nat (- i)) else str_nat (nat i))"

text \<open>
  \<^verbatim>\<open>sock.sendall(pack(t, payload))\<close>. A handler returns the exception that ended it, if
  any, together with the connection as it is at that moment, so that what was sent
  before a failure is not lost.
\<close>

definition send_packet :: "sock \<Rightarrow> int \<Rightarrow> bytes \<Rightarrow> exn option \<times> sock" where
  "send_packet s t payload =
     (case pack t payload of
        Inl e \<Rightarrow> (Some e, s)
      | Inr pkt \<Rightarrow>
          (case sendall s pkt of
             Inl e \<Rightarrow> (Some e, s)
           | Inr s' \<Rightarrow> (None, s')))"

text \<open>One record of a listing (server.py, line 100).\<close>

definition format_entry :: "dir_entry \<Rightarrow> string" where
  "format_entry i =
     e_name i @ ''|'' @ (if e_dir i then ''1'' else ''0'') @ ''|'' @ str_nat (e_size i)
       @ ''|'' @ str_int (e_mtime i)"

text \<open>
  The \<^verbatim>\<open>TYPE_LIST\<close> branch (server.py, lines 96 to 103). When the joined records
  cannot be encoded the exception leaves the branch before anything is sent.
\<close>

definition handle_list ::
  "pylib \<Rightarrow> string \<Rightarrow> string \<Rightarrow> filesystem \<Rightarrow> sock \<Rightarrow> bytes \<Rightarrow> exn option \<times> sock" where
  "handle_list lib root_dir cwd fs s payload =
     (let path = decode_replace lib payload;
          items = list_dir root_dir cwd fs path
      in case encode_utf8 lib (join_sep [CHR 0x0A] (map format_entry items)) of
           Inl m \<Rightarrow> (Some (Exn UnicodeEncodeError m), s)
         | Inr data \<Rightarrow> send_packet s TYPE_LIST_RESP data)"

text \<open>
  The range a \<^verbatim>\<open>GET\<close> serves (server.py, lines 118 to 122): the start is lifted to 0,
  the end is replaced by the file size when it is negative or beyond it.
\<close>

definition clip_range :: "nat \<Rightarrow> int \<Rightarrow> int \<Rightarrow> int \<times> int" where
  "clip_range file_size start_req end_req =
     (max 0 start_req,
      if end_req < 0 \<or> end_req > int file_size then int file_size else end_req)"

text \<open>
  The streaming loop (server.py, lines 131 to 138). \<open>f\<close> is what the file still holds
  from its current position on; \<^verbatim>\<open>f.read(n)\<close> returns the next \<open>n\<close> bytes, or fewer at
  the end of the file.
\<close>

function send_chunks :: "sock \<Rightarrow> bytes \<Rightarrow> nat \<Rightarrow> exn option \<times> sock" where
  "send_chunks s f remaining =
     (if 0 < remaining then
        (if take (min CHUNK_SIZE remaining) f = [] then (None, s)
         else
           (case send_packet s TYPE_CHUNK (take (min CHUNK_SIZE remaining) f) of
              (Some e, s') \<Rightarrow> (Some e, s')
            | (None, s') \<Rightarrow>
                send_chunks s' (drop (length (take (min CHUNK_SIZE remaining) f)) f)
                  (remaining - length (take (min CHUNK_SIZE remaining) f))))
      else (None, s))"
  by pat_completeness auto
termination
  by (relation "measure (\<lambda>(s, f, remaining). remaining)") (auto simp: CHUNK_SIZE_def)

declare send_chunks.simps [simp del]

text \<open>
  The second half of the \<^verbatim>\<open>TYPE_GET\<close> branch (server.py, lines 124 to 138): the
  size report, which always carries the size of the whole file, then the chunks of
  the range when it is not empty. \<^verbatim>\<open>str(file_size)\<close> consists of ASCII digits, which
  UTF-8 encodes as themselves, one byte each.
\<close>

definition ascii_bytes :: "string \<Rightarrow> bytes" where
  "ascii_bytes s = map of_char s"

definition stream_range ::
  "pylib \<Rightarrow> filesystem \<Rightarrow> sock \<Rightarrow> string \<Rightarrow> nat \<Rightarrow> int \<Rightarrow> int \<Rightarrow> exn option \<times> sock" where
  "stream_range lib fs s full_path file_size start end =
     (case send_packet s TYPE_META (ascii_bytes (str_nat file_size)) of
        (Some e, s1) \<Rightarrow> (Some e, s1)
      | (None, s1) \<Rightarrow>
          if end > start then
            (case open_rb fs full_path of
               None \<Rightarrow> (Some (Exn OSError ''open''), s1)
             | Some content \<Rightarrow>
                 send_chunks s1 (drop (nat start) content) (nat (end - start)))
          else (None, s1))"

text \<open>
  The first half of the \<^verbatim>\<open>TYPE_GET\<close> branch (server.py, lines 105 to 122): the
  request is parsed, the path resolved and the range clipped.
  \<^verbatim>\<open>os.path.getsize\<close> is the size \<^verbatim>\<open>os.stat\<close> reports. The messages of the
  exceptions that the library raises (\<^verbatim>\<open>int\<close>, \<^verbatim>\<open>os.stat\<close>, \<^verbatim>\<open>open\<close>) are shortened
  to a fixed text.
\<close>

definition handle_get ::
  "pylib \<Rightarrow> string \<Rightarrow> string \<Rightarrow> filesystem \<Rightarrow> sock \<Rightarrow> bytes \<Rightarrow> exn option \<times> sock" where
  "handle_get lib root_dir cwd fs s payload =
     (case split_sep CHR ''|'' (decode_replace lib payload) of
        [path, start_str, end_str] \<Rightarrow>
          (case safe_path root_dir cwd path of
             Inl e \<Rightarrow> (Some e, s)
           | Inr full_path \<Rightarrow>
               if \<not> isfile fs full_path
               then (Some (Exn FileNotFoundError (''File not found: '' @ path)), s)
               else
                 (case stat fs full_path of
                    None \<Rightarrow> (Some (Exn OSError ''getsize''), s)
                  | Some st \<Rightarrow>
                      (case to_int lib start_str of
                         None \<Rightarrow> (Some (Exn ValueError ''invalid literal for int()''), s)
                       | Some start_req \<Rightarrow>
                           (case to_int lib end_str of
                              None \<Rightarrow> (Some (Exn ValueError ''invalid literal for int()''), s)
                            | Some end_req \<Rightarrow>
                                (case clip_range (st_size st) start_req end_req of
                                   (start, end) \<Rightarrow>
                                     stream_range lib fs s full_path (st_size st) start end)))))
      | _ \<Rightarrow> (Some (Exn ValueError ''Invalid GET request format''), s))"

text \<open>
  The body of the \<^verbatim>\<open>while True\<close> loop after a packet has been read (server.py, lines
  96 to 138): a packet of any other type is ignored.
\<close>

definition handle_request ::
  "pylib \<Rightarrow> string \<Rightarrow> string \<Rightarrow> filesystem \<Rightarrow> sock \<Rightarrow> int \<Rightarrow> bytes \<Rightarrow> exn option \<times> sock" where
  "handle_request lib root_dir cwd fs s t payload =
     (if t = TYPE_LIST then handle_list lib root_dir cwd fs s payload
      else if t = TYPE_GET then handle_get lib root_dir cwd fs s payload
      else (None, s))"

text \<open>
  The handler of the outer \<^verbatim>\<open>except Exception\<close> (server.py, lines 140 to 145): one
  attempt to send an error packet, whose own failure (in encoding the message, in
  packing or in sending) is swallowed.
\<close>

definition send_error :: "pylib \<Rightarrow> sock \<Rightarrow> exn \<Rightarrow> sock" where
  "send_error lib s e =
     (case encode_utf8 lib (msg e) of
        Inl m \<Rightarrow> s
      | Inr data \<Rightarrow> snd (send_packet s TYPE_ERR data))"

subsection \<open>Server: the connection loop\<close>

text \<open>
  A measure of what is still to come on the inbound side: every successful read of at
  least one byte lowers it, which is why the loop below ends.
\<close>

fun pending :: "event list \<Rightarrow> nat" where
  "pending [] = 0"
| "pending (Data d # es) = Suc (length d + pending es)"
| "pending (e # es) = Suc (pending es)"

lemma recv_events_pending:
  "recv_events es k = Inr (d, es') \<Longrightarrow> d \<noteq> [] \<Longrightarrow> 0 < k \<Longrightarrow> pending es' < pending es"
  by (induction es k rule: recv_events.induct) (auto split: if_splits)

lemma recv_events_pending_le:
  "recv_events es k = Inr (d, es') \<Longrightarrow> pending es' \<le> pending es"
  by (induction es k rule: recv_events.induct) (auto split: if_splits)

lemma recv_loop_pending:
  "recv_loop f c s n buf = Inr (b, s') \<Longrightarrow>
     pending (inbound s') \<le> pending (inbound s) \<and>
     (length buf < n \<longrightarrow> pending (inbound s') < pending (inbound s))"
proof (induction f c s n buf rule: recv_loop.induct)
  case (1 f c s n buf)
  show ?case
  proof (cases "length buf < n")
    case False
    with 1(2) show ?thesis by (subst (asm) recv_loop.simps) simp
  next
    case True
    from 1(2) True obtain d s1 where
      r: "recv s (n - length buf) = Inr (d, s1)" and d: "d \<noteq> []"
      and rec: "recv_loop f c s1 n (buf @ d) = Inr (b, s')"
      by (subst (asm) recv_loop.simps) (auto split: sum.splits if_splits)
    from r obtain es where e: "recv_events (inbound s) (n - length buf) = Inr (d, es)"
      and s1: "s1 = s\<lparr>inbound := es\<rparr>"
      by (auto simp: recv_def split: sum.splits)
    have "pending es < pending (inbound s)"
      using recv_events_pending[OF e d] True by simp
    moreover have "pending (inbound s') \<le> pending (inbound s1)"
      using 1(1)[OF True r refl d rec] by simp
    ultimately show ?thesis using s1 by simp
  qed
qed

lemma recv_packet_pending:
  assumes "recv_packet s = Inr (r, s')"
  shows "pending (inbound s') < pending (inbound s)"
proof -
  from assms obtain m s1 h s2 t plen p where
    a: "recv_exact s 4 = Inr (m, s1)" and b: "recv_exact s1 5 = Inr (h, s2)"
    and c: "recv_exact s2 plen = Inr (p, s')"
    by (auto simp: recv_packet_def split: sum.splits if_splits option.splits)
  have "pending (inbound s1) < pending (inbound s)"
    using recv_loop_pending[OF a[unfolded recv_exact_def]] by simp
  moreover have "pending (inbound s2) \<le> pending (inbound s1)"
    using recv_loop_pending[OF b[unfolded recv_exact_def]] by simp
  moreover have "pending (inbound s') \<le> pending (inbound s2)"
    using recv_loop_pending[OF c[unfolded recv_exact_def]] by simp
  ultimately show ?thesis by simp
qed

lemma sendall_inbound: "sendall s b = Inr s' \<Longrightarrow> inbound s' = inbound s"
  by (auto simp: sendall_def split: option.splits nat.splits)

lemma send_packet_inbound: "send_packet s t p = (r, s') \<Longrightarrow> inbound s' = inbound s"
  by (auto simp: send_packet_def split: sum.splits dest: sendall_inbound)

lemma send_chunks_unfold:
  assumes "0 < remaining" and "take (min CHUNK_SIZE remaining) f \<noteq> []"
  shows "send_chunks s f remaining =
           (case send_packet s TYPE_CHUNK (take (min CHUNK_SIZE remaining) f) of
              (Some e, s') \<Rightarrow> (Some e, s')
            | (None, s') \<Rightarrow>
                send_chunks s' (drop (length (take (min CHUNK_SIZE remaining) f)) f)
                  (remaining - length (take (min CHUNK_SIZE remaining) f)))"
  using assms by (subst send_chunks.simps) (simp del: take_eq_Nil)

lemma send_chunks_stop:
  assumes "remaining = 0 \<or> take (min CHUNK_SIZE remaining) f = []"
  shows "send_chunks s f remaining = (None, s)"
  using assms by (subst send_chunks.simps) (auto simp del: take_eq_Nil)

lemma send_chunks_inbound: "send_chunks s f n = (r, s') \<Longrightarrow> inbound s' = inbound s"
proof (induction s f n arbitrary: r s' rule: send_chunks.induct)
  case (1 s f remaining)
  show ?case
  proof (cases "0 < remaining \<and> take (min CHUNK_SIZE remaining) f \<noteq> []")
    case False
    then have "send_chunks s f remaining = (None, s)"
      by (intro send_chunks_stop) auto
    with 1(2) show ?thesis by simp
  next
    case True
    obtain e s1 where sp: "send_packet s TYPE_CHUNK (take (min CHUNK_SIZE remaining) f) = (e, s1)"
      by (cases "send_packet s TYPE_CHUNK (take (min CHUNK_SIZE remaining) f)")
    have i1: "inbound s1 = inbound s" by (rule send_packet_inbound[OF sp])
    note u = send_chunks_unfold[of remaining f s, unfolded sp]
    show ?thesis
    proof (cases e)
      case (Some x)
      with 1(2) True u have "s' = s1" by simp
      with i1 show ?thesis by simp
    next
      case None
      with 1(2) True u have
        "send_chunks s1 (drop (length (take (min CHUNK_SIZE remaining) f)) f)
           (remaining - length (take (min CHUNK_SIZE remaining) f)) = (r, s')"
        by simp
      from 1(1)[OF _ _ sp[symmetric] _ this] True None i1 show ?thesis by simp
    qed
  qed
qed

lemma handle_list_inbound:
  "handle_list lib rd cwd fs s p = (r, s') \<Longrightarrow> inbound s' = inbound s"
  by (auto simp: handle_list_def Let_def split: sum.splits dest: send_packet_inbound)

lemma stream_range_inbound:
  assumes "stream_range lib fs s fp sz st en = (r, s')"
  shows "inbound s' = inbound s"
proof -
  obtain e s1 where sp: "send_packet s TYPE_META (ascii_bytes (str_nat sz)) = (e, s1)"
    by (cases "send_packet s TYPE_META (ascii_bytes (str_nat sz))")
  have i1: "inbound s1 = inbound s" by (rule send_packet_inbound[OF sp])
  show ?thesis
  proof (cases e)
    case (Some x)
    with assms sp have "s' = s1" by (simp add: stream_range_def)
    with i1 show ?thesis by simp
  next
    case None
    show ?thesis
    proof (cases "en > st")
      case False
      with assms sp None have "s' = s1" by (simp add: stream_range_def)
      with i1 show ?thesis by simp
    next
      case True
      show ?thesis
      proof (cases "open_rb fs fp")
        case None': None
        with assms sp None True have "s' = s1" by (simp add: stream_range_def)
        with i1 show ?thesis by simp
      next
        case (Some content)
        with assms sp None True
        have "send_chunks s1 (drop (nat st) content) (nat (en - st)) = (r, s')"
          by (simp add: stream_range_def)
        from send_chunks_inbound[OF this] i1 show ?thesis by simp
      qed
    qed
  qed
qed

lemma handle_get_inbound:
  assumes "handle_get lib rd cwd fs s p = (r, s')"
  shows "inbound s' = inbound s"
proof -
  have "s' = s \<or> (\<exists>fp sz st en. stream_range lib fs s fp sz st en = (r, s'))"
    using assms unfolding handle_get_def
    by (simp split: list.splits sum.splits if_splits option.splits prod.splits) blast+
  then show ?thesis using stream_range_inbound by blast
qed

lemma handle_request_inbound:
  "handle_request lib rd cwd fs s t p = (r, s') \<Longrightarrow> inbound s' = inbound s"
  by (auto simp: handle_request_def split: if_splits
      dest: handle_list_inbound handle_get_inbound)

text \<open>
  \<^verbatim>\<open>handle_client\<close> (server.py, lines 87 to 148). A \<^verbatim>\<open>ConnectionError\<close> from
  \<^verbatim>\<open>recv_packet\<close> leaves the loop quietly; any other exception is answered with one
  error packet. In both cases, and only then, the connection is closed; the result is
  everything that was sent on it.
\<close>

function handle_client ::
  "pylib \<Rightarrow> string \<Rightarrow> string \<Rightarrow> filesystem \<Rightarrow> sock \<Rightarrow> bytes list" where
  "handle_client lib root_dir cwd fs s =
     (case recv_packet s of
        Inl e \<Rightarrow>
          if cls e = ConnectionError then outbound s
          else outbound (send_error lib s e)
      | Inr ((t, payload), s1) \<Rightarrow>
          (case handle_request lib root_dir cwd fs s1 t payload of
             (Some e, s2) \<Rightarrow> outbound (send_error lib s2 e)
           | (None, s2) \<Rightarrow> handle_client lib root_dir cwd fs s2))"
  by pat_completeness auto
termination
  apply (relation "measure (\<lambda>(lib, root_dir, cwd, fs, s). pending (inbound s))")
   apply simp
  apply (auto dest!: recv_packet_pending handle_request_inbound[OF sym])
  done

declare handle_client.simps [simp del]

subsection \<open>Client: parsing a listing\<close>

text \<open>
  Text is modelled over 8-bit characters, so of the line boundaries of
  \<^verbatim>\<open>str.splitlines\<close> and the blanks of \<^verbatim>\<open>str.strip\<close> the ones up to U+00FF are
  present (the code points U+2028, U+2029 and the wider Unicode spaces have no
  counterpart here).
\<close>

definition is_linebreak :: "char \<Rightarrow> bool" where
  "is_linebreak c \<longleftrightarrow>
     c \<in> {CHR 0x0A, CHR 0x0B, CHR 0x0C, CHR 0x0D, CHR 0x1C, CHR 0x1D, CHR 0x1E, CHR 0x85}"

definition is_space :: "char \<Rightarrow> bool" where
  "is_space c \<longleftrightarrow>
     c \<in> {CHR 0x09, CHR 0x0A, CHR 0x0B, CHR 0x0C, CHR 0x0D, CHR 0x1C, CHR 0x1D, CHR 0x1E,
           CHR 0x1F, CHR 0x20, CHR 0x85, CHR 0xA0}"

text \<open>
  \<^verbatim>\<open>s.splitlines()\<close>: \<open>cur\<close> is the line being read. A carriage return followed by a
  line feed is one boundary; no empty line is reported after the last boundary.
\<close>

fun splitlines_from :: "string \<Rightarrow> string \<Rightarrow> string list" where
  "splitlines_from cur [] = (if cur = [] then [] else [cur])"
| "splitlines_from cur [c] =
     (if is_linebreak c then [cur] else [cur @ [c]])"
| "splitlines_from cur (c # d # cs) =
     (if c = CHR 0x0D \<and> d = CHR 0x0A then cur # splitlines_from [] cs
      else if is_linebreak c then cur # splitlines_from [] (d # cs)
      else splitlines_from (cur @ [c]) (d # cs))"

definition splitlines :: "string \<Rightarrow> string list" where
  "splitlines s = splitlines_from [] s"

text \<open>\<^verbatim>\<open>not line.strip()\<close>: the line consists of blanks only.\<close>

definition blank :: "string \<Rightarrow> bool" where
  "blank line = list_all is_space line"

text \<open>The dictionaries the clients build, with the keys \<^verbatim>\<open>name\<close>, \<^verbatim>\<open>dir\<close>, \<^verbatim>\<open>size\<close>, \<^verbatim>\<open>mtime\<close>.\<close>

record item =
  i_name :: string
  i_dir :: bool
  i_size :: int
  i_mtime :: int

text \<open>
  The body of the loop over the lines (Client.py, lines 79 to 83; CLI-Client.py, lines
  134 to 144, where the key \<^verbatim>\<open>dir\<close> is called \<^verbatim>\<open>is_dir\<close>): \<open>Inr None\<close> when the line is
  skipped, \<open>Inl\<close> when one of the three \<^verbatim>\<open>int(...)\<close> raises.
\<close>

definition parse_line :: "pylib \<Rightarrow> string \<Rightarrow> exn + item option" where
  "parse_line lib line =
     (if blank line then Inr None
      else
        (case split_sep CHR ''|'' line of
           [n, d, sz, mt] \<Rightarrow>
             (case to_int lib d of
                None \<Rightarrow> Inl (Exn ValueError ''invalid literal for int()'')
              | Some dv \<Rightarrow>
                  (case to_int lib sz of
                     None \<Rightarrow> Inl (Exn ValueError ''invalid literal for int()'')
                   | Some sv \<Rightarrow>
                       (case to_int lib mt of
                          None \<Rightarrow> Inl (Exn ValueError ''invalid literal for int()'')
                        | Some mv \<Rightarrow>
                            Inr (Some \<lparr>i_name = n, i_dir = (dv \<noteq> 0), i_size = sv,
                                       i_mtime = mv\<rparr>))))
         | _ \<Rightarrow> Inr None))"

fun parse_lines :: "pylib \<Rightarrow> string list \<Rightarrow> item list \<Rightarrow> exn + item list" where
  "parse_lines lib [] items = Inr items"
| "parse_lines lib (line # rest) items =
     (case parse_line lib line of
        Inl e \<Rightarrow> Inl e
      | Inr None \<Rightarrow> parse_lines lib rest items
      | Inr (Some i) \<Rightarrow> parse_lines lib rest (items @ [i]))"

text \<open>What both clients do with the packet \<open>(t, data)\<close> that answers a \<^verbatim>\<open>LIST\<close>.\<close>

definition parse_listing :: "pylib \<Rightarrow> int \<Rightarrow> bytes \<Rightarrow> exn + item list" where
  "parse_listing lib t data =
     (if t = TYPE_LIST_RESP then parse_lines lib (splitlines (decode_ignore lib data)) []
      else Inr [])"

text \<open>
  \<^verbatim>\<open>API.list\<close> of Client.py answers with a success or a failure record (lines 84 to
  86), \<^verbatim>\<open>list_directory\<close> of CLI-Client.py prints the error and returns the empty list
  (lines 145 to 148).
\<close>

datatype list_result = Success "item list" | Failure string

definition api_list_reply :: "pylib \<Rightarrow> int \<Rightarrow> bytes \<Rightarrow> list_result" where
  "api_list_reply lib t data =
     (case parse_listing lib t data of
        Inl e \<Rightarrow> Failure (msg e)
      | Inr items \<Rightarrow> Success items)"

definition list_directory_reply :: "pylib \<Rightarrow> int \<Rightarrow> bytes \<Rightarrow> item list" where
  "list_directory_reply lib t data =
     (case parse_listing lib t data of
        Inl e \<Rightarrow> []
      | Inr items \<Rightarrow> items)"

text \<open>
  The item a line stands for when it has exactly four fields of which the last three
  are integers, and the listing claim C10 describes: every line that is not blank and
  stands for an item is kept, every other line is dropped.
\<close>

definition line_item :: "pylib \<Rightarrow> string \<Rightarrow> item option" where
  "line_item lib line =
     (case split_sep CHR ''|'' line of
        [n, d, sz, mt] \<Rightarrow>
          (case (to_int lib d, to_int lib sz, to_int lib mt) of
             (Some dv, Some sv, Some mv) \<Rightarrow>
               Some \<lparr>i_name = n, i_dir = (dv \<noteq> 0), i_size = sv, i_mtime = mv\<rparr>
           | _ \<Rightarrow> None)
      | _ \<Rightarrow> None)"

definition kept_lines :: "pylib \<Rightarrow> string list \<Rightarrow> item list" where
  "kept_lines lib ls = List.map_filter (\<lambda>l. if blank l then None else line_item lib l) ls"

text \<open>A line that the loop reads as a record: not blank, four fields.\<close>

definition record_line :: "string \<Rightarrow> bool" where
  "record_line l \<longleftrightarrow> \<not> blank l \<and> length (split_sep CHR ''|'' l) = 4"

subsection \<open>Paths inside the root\<close>

text \<open>
  A path is inside the root when it starts with the root followed by a separator (the
  prefix \<^verbatim>\<open>safe_path\<close> tests for) and none of its components is \<^verbatim>\<open>..\<close>, so that the
  prefix cannot be left again further on. A plain name is what \<^verbatim>\<open>os.listdir\<close>
  returns: one component, neither \<^verbatim>\<open>.\<close> nor \<^verbatim>\<open>..\<close>.
\<close>

definition inside :: "string \<Rightarrow> string \<Rightarrow> bool" where
  "inside root_dir p \<longleftrightarrow>
     startswith p (join root_dir []) \<and> ''..'' \<notin> set (split_sep CHR ''/'' p)"

definition plain_name :: "string \<Rightarrow> bool" where
  "plain_name n \<longleftrightarrow> n \<noteq> [] \<and> n \<noteq> ''.'' \<and> n \<noteq> ''..'' \<and> CHR ''/'' \<notin> set n"

definition proper_listing :: "filesystem \<Rightarrow> bool" where
  "proper_listing fs \<longleftrightarrow>
     (\<forall>p names. listdir fs p = Some names \<longrightarrow> (\<forall>n\<in>set names. plain_name n))"

text \<open>Two trees that differ at most in what they hold outside the root.\<close>

definition fs_agree :: "string \<Rightarrow> filesystem \<Rightarrow> filesystem \<Rightarrow> bool" where
  "fs_agree root_dir fs fs' \<longleftrightarrow>
     (\<forall>p. inside root_dir p \<longrightarrow>
        isdir fs p = isdir fs' p \<and> isfile fs p = isfile fs' p \<and>
        listdir fs p = listdir fs' p \<and> stat fs p = stat fs' p \<and>
        open_rb fs p = open_rb fs' p)"

subsection \<open>Symbolic links\<close>

text \<open>
  \<^verbatim>\<open>os.path.isdir\<close>, \<^verbatim>\<open>os.path.isfile\<close>, \<^verbatim>\<open>os.listdir\<close>, \<^verbatim>\<open>os.stat\<close> and \<^verbatim>\<open>open\<close> follow
  symbolic links: asked about a path, the operating system answers for the entry the
  path leads to. \<open>rp\<close> is that resolution (what \<^verbatim>\<open>os.path.realpath\<close> computes): it maps
  a path to the canonical path of its entry, and a path without links to itself.
  \<open>follow rp fs\<close> is what the server sees of a tree whose entries \<open>fs\<close> holds by their
  canonical paths. The server itself never resolves a link: \<^verbatim>\<open>safe_path\<close> calls
  \<^verbatim>\<open>os.path.abspath\<close>, which works on the string alone.
\<close>

definition follow :: "(string \<Rightarrow> string) \<Rightarrow> filesystem \<Rightarrow> filesystem" where
  "follow rp fs =
     \<lparr>isdir = (\<lambda>p. isdir fs (rp p)),
      isfile = (\<lambda>p. isfile fs (rp p)),
      listdir = (\<lambda>p. listdir fs (rp p)),
      stat = (\<lambda>p. stat fs (rp p)),
      open_rb = (\<lambda>p. open_rb fs (rp p))\<rparr>"

text \<open>No path inside the root leads to an entry outside it.\<close>

definition links_stay_inside :: "string \<Rightarrow> (string \<Rightarrow> string) \<Rightarrow> bool" where
  "links_stay_inside root_dir rp \<longleftrightarrow> (\<forall>p. inside root_dir p \<longrightarrow> inside root_dir (rp p))"

subsection \<open>An example tree\<close>

text \<open>
  The tree of the end-to-end scenario: under the root \<^verbatim>\<open>/srv/files\<close> a file
  \<^verbatim>\<open>a.txt\<close> of ten bytes, an empty directory \<^verbatim>\<open>sub\<close> and a file \<^verbatim>\<open>locked\<close> that cannot
  be stat'ed; outside the root, \<^verbatim>\<open>/etc/passwd\<close>. \<open>demo_fs'\<close> is the same tree with a
  different world outside the root.
\<close>

definition demo_fs :: filesystem where
  "demo_fs =
     \<lparr>isdir = (\<lambda>p. p = ''/'' \<or> p = ''/etc'' \<or> p = ''/srv'' \<or> p = ''/srv/files''
                    \<or> p = ''/srv/files/sub''),
      isfile = (\<lambda>p. p = ''/srv/files/a.txt'' \<or> p = ''/srv/files/locked'' \<or> p = ''/etc/passwd''),
      listdir = (\<lambda>p. if p = ''/srv/files'' then Some [''a.txt'', ''sub'', ''locked'']
                      else if p = ''/srv/files/sub'' then Some []
                      else if p = ''/etc'' then Some [''passwd'']
                      else None),
      stat = (\<lambda>p. if p = ''/srv/files/a.txt'' then Some \<lparr>st_size = 10, st_mtime = 1700000000\<rparr>
                   else if p = ''/srv/files/sub'' then Some \<lparr>st_size = 4096, st_mtime = 1700000001\<rparr>
                   else if p = ''/etc/passwd'' then Some \<lparr>st_size = 3, st_mtime = 1600000000\<rparr>
                   else None),
      open_rb = (\<lambda>p. if p = ''/srv/files/a.txt''
                      then Some [0x30, 0x31, 0x32, 0x33, 0x34, 0x35, 0x36, 0x37, 0x38, 0x39]
                      else if p = ''/etc/passwd'' then Some [0x72, 0x3A, 0x78]
                      else None)\<rparr>"

definition demo_fs' :: filesystem where
  "demo_fs' =
     demo_fs\<lparr>isfile := (\<lambda>p. p = ''/srv/files/a.txt'' \<or> p = ''/srv/files/locked''),
             stat := (\<lambda>p. if p = ''/etc/passwd'' then None else stat demo_fs p),
             open_rb := (\<lambda>p. if p = ''/etc/passwd'' then None else open_rb demo_fs p)\<rparr>"

text \<open>
  Links for the example tree. In \<open>demo_alias\<close> the root holds a link \<^verbatim>\<open>alias\<close> to its own
  file \<^verbatim>\<open>a.txt\<close>. In \<open>demo_links\<close> it holds a link \<^verbatim>\<open>link\<close> to the file \<^verbatim>\<open>/etc/passwd\<close>
  and a link \<^verbatim>\<open>out\<close> to the directory \<^verbatim>\<open>/etc\<close>, both outside the root. \<open>add_names\<close> enters
  the names of the links in the listing of the root.
\<close>

definition add_names :: "string list \<Rightarrow> filesystem \<Rightarrow> filesystem" where
  "add_names ns fs =
     fs\<lparr>listdir := (\<lambda>p. if p = ''/srv/files''
                          then (case listdir fs p of None \<Rightarrow> None | Some l \<Rightarrow> Some (l @ ns))
                          else listdir fs p)\<rparr>"

definition demo_alias :: "string \<Rightarrow> string" where
  "demo_alias p = (if p = ''/srv/files/alias'' then ''/srv/files/a.txt'' else p)"

definition demo_links :: "string \<Rightarrow> string" where
  "demo_links p =
     (if p = ''/srv/files/link'' then ''/etc/passwd''
      else if p = ''/srv/files/out'' then ''/etc''
      else if p = ''/srv/files/out/passwd'' then ''/etc/passwd''
      else p)"

subsection \<open>A concrete runtime for examples\<close>

text \<open>
  To evaluate the programs on concrete inputs the examples below need one concrete
  runtime. \<open>ascii_lib\<close> is the Python runtime restricted to 7-bit text: on ASCII bytes
  its decoders are CPython's, its encoder is CPython's on every string of code points
  below 256, and \<open>ascii_to_int\<close> is \<^verbatim>\<open>int()\<close> on an
  optional sign followed by decimal digits (CPython accepts more: surrounding blanks
  and underscores between digits, which no example uses). No general theorem depends
  on it.
\<close>

fun is_digit :: "char \<Rightarrow> bool" where
  "is_digit c = (48 \<le> (of_char c :: nat) \<and> (of_char c :: nat) \<le> 57)"

fun digits_val :: "string \<Rightarrow> nat \<Rightarrow> nat option" where
  "digits_val [] acc = Some acc"
| "digits_val (c # cs) acc =
     (if is_digit c then digits_val cs (acc * 10 + (of_char c - 48)) else None)"

definition ascii_to_int :: "string \<Rightarrow> int option" where
  "ascii_to_int s =
     (case s of
        [] \<Rightarrow> None
      | c # cs \<Rightarrow>
          if c = CHR ''-'' then (if cs = [] then None else map_option (\<lambda>n. - int n) (digits_val cs 0))
          else if c = CHR ''+'' then (if cs = [] then None else map_option int (digits_val cs 0))
          else map_option int (digits_val s 0))"

text \<open>The UTF-8 encoding of a code point below 256: one byte, or two from U+0080 on.\<close>

definition utf8_char :: "char \<Rightarrow> bytes" where
  "utf8_char c =
     (if (of_char c :: nat) < 128 then [of_char c]
      else [of_nat (192 + of_char c div 64), of_nat (128 + of_char c mod 64)])"

definition ascii_lib :: pylib where
  "ascii_lib =
     \<lparr>encode_utf8 = (\<lambda>s. Inr (concat (map utf8_char s))),
      decode_strict = (\<lambda>b. if list_all (\<lambda>x. x < 128) b then Inr (map (\<lambda>x. char_of (unat x)) b)
                             else Inl ''invalid start byte''),
      decode_replace = map (\<lambda>x. if x < 128 then char_of (unat x) else CHR ''?''),
      decode_ignore = (\<lambda>b. map (\<lambda>x. char_of (unat x)) (filter (\<lambda>x. x < 128) b)),
      to_int = ascii_to_int\<rparr>"

section \<open>Properties\<close>

subsection \<open>Reading from a stream\<close>

lemma recv_events_take:
  "n \<le> length (avail es) \<Longrightarrow> 0 < n \<Longrightarrow>
   \<exists>d es'. recv_events es n = Inr (d, es') \<and> d \<noteq> [] \<and> length d \<le> n \<and> avail es = d @ avail es'"
proof (induction es n rule: recv_events.induct)
  case (4 d es k)
  show ?case
  proof (cases "d = []")
    case True with 4 show ?thesis by simp
  next
    case False
    then show ?thesis using 4(3) by (cases "length d \<le> k") auto
  qed
qed simp_all

lemma recv_loop_avail:
  "n \<le> length buf + length (avail (inbound s)) \<Longrightarrow>
   \<exists>s'. recv_loop f c s n buf = Inr (buf @ take (n - length buf) (avail (inbound s)), s')
      \<and> avail (inbound s') = drop (n - length buf) (avail (inbound s))
      \<and> outbound s' = outbound s \<and> sends_left s' = sends_left s"
proof (induction f c s n buf rule: recv_loop.induct)
  case (1 f c s n buf)
  show ?case
  proof (cases "length buf < n")
    case False
    then show ?thesis by (subst recv_loop.simps) simp
  next
    case True
    with 1(2) have "n - length buf \<le> length (avail (inbound s))" "0 < n - length buf" by auto
    from recv_events_take[OF this] obtain d es' where
      r: "recv_events (inbound s) (n - length buf) = Inr (d, es')" and d: "d \<noteq> []"
      and ld: "length d \<le> n - length buf" and av: "avail (inbound s) = d @ avail es'"
      by blast
    have rv: "recv s (n - length buf) = Inr (d, s\<lparr>inbound := es'\<rparr>)"
      by (simp add: recv_def r)
    have "n \<le> length (buf @ d) + length (avail (inbound (s\<lparr>inbound := es'\<rparr>)))"
      using 1(2) av by simp
    from 1(1)[OF True rv refl d this] obtain s' where
      s': "recv_loop f c (s\<lparr>inbound := es'\<rparr>) n (buf @ d)
            = Inr ((buf @ d) @ take (n - length (buf @ d)) (avail es'), s')"
        "avail (inbound s') = drop (n - length (buf @ d)) (avail es')"
        "outbound s' = outbound s" "sends_left s' = sends_left s"
      by auto
    have "recv_loop f c s n buf = recv_loop f c (s\<lparr>inbound := es'\<rparr>) n (buf @ d)"
      using True rv d by (subst recv_loop.simps) simp
    moreover have "(buf @ d) @ take (n - length (buf @ d)) (avail es')
        = buf @ take (n - length buf) (avail (inbound s))"
      using av ld by simp
    moreover have "drop (n - length (buf @ d)) (avail es') = drop (n - length buf) (avail (inbound s))"
      using av ld by simp
    ultimately show ?thesis using s' by auto
  qed
qed

lemma recv_loop_prefix:
  assumes "avail (inbound s) = xs @ rest"
  shows "\<exists>s'. recv_loop f c s (length xs) [] = Inr (xs, s') \<and> avail (inbound s') = rest
      \<and> outbound s' = outbound s \<and> sends_left s' = sends_left s"
  using recv_loop_avail[of "length xs" "[]" s f c] assms by simp

lemma be32_arith:
  fixes n :: nat
  assumes "n < 4294967296"
  shows "((n div 16777216 mod 256 * 256 + n div 65536 mod 256) * 256 + n div 256 mod 256) * 256
          + n mod 256 = n"
proof -
  define a where "a = n div 256"
  define b where "b = a div 256"
  define c where "c = b div 256"
  have e1: "n div 65536 = b" by (simp add: a_def b_def div_mult2_eq)
  have e2: "n div 16777216 = c" by (simp add: a_def b_def c_def div_mult2_eq)
  have "c < 256" using assms unfolding e2[symmetric] by simp
  then have c: "c mod 256 = c" by simp
  have "c * 256 + b mod 256 = b" by (simp add: c_def)
  moreover have "b * 256 + a mod 256 = a" by (simp add: b_def)
  moreover have "a * 256 + n mod 256 = n" by (simp add: a_def)
  ultimately show ?thesis by (simp add: e1 e2 c a_def[symmetric])
qed

lemma be32_roundtrip:
  assumes "0 \<le> t" "t \<le> 255" "n < 4294967296"
  shows "struct_unpack_BI (of_int t # be32 n) = Some (t, n)"
proof -
  have t: "uint (of_int t :: 8 word) = t"
    using assms by (simp add: uint_word_of_int)
  have hi: "n div 16777216 mod 256 = n div 16777216"
    using assms(3) by simp
  show ?thesis
    using be32_arith[OF assms(3)] by (simp add: be32_def t unat_of_nat hi)
qed


lemma pack_ok:
  assumes "0 \<le> t" "t \<le> 255" "length p < 4294967296"
  shows "pack t p = Inr (MAGIC @ (of_int t # be32 (length p)) @ p)"
  using assms by (simp add: pack_def struct_pack_BI_def)

lemma three_reads:
  assumes "avail (inbound s) = MAGIC @ hdr @ p @ rest" and "length hdr = 5"
  shows "\<exists>s1 s2 s3. recv_loop f c s 4 [] = Inr (MAGIC, s1)
           \<and> recv_loop f c s1 5 [] = Inr (hdr, s2)
           \<and> recv_loop f c s2 (length p) [] = Inr (p, s3)
           \<and> avail (inbound s3) = rest \<and> outbound s3 = outbound s
           \<and> sends_left s3 = sends_left s"
proof -
  have m: "length MAGIC = 4" by (simp add: MAGIC_def)
  from recv_loop_prefix[of s MAGIC "hdr @ p @ rest" f c] assms(1) m
  obtain s1 where s1: "recv_loop f c s 4 [] = Inr (MAGIC, s1)"
      "avail (inbound s1) = hdr @ p @ rest" "outbound s1 = outbound s"
      "sends_left s1 = sends_left s" by auto
  from recv_loop_prefix[of s1 hdr "p @ rest" f c] s1(2) assms(2)
  obtain s2 where s2: "recv_loop f c s1 5 [] = Inr (hdr, s2)"
      "avail (inbound s2) = p @ rest" "outbound s2 = outbound s1"
      "sends_left s2 = sends_left s1" by auto
  from recv_loop_prefix[of s2 p rest f c] s2(2)
  obtain s3 where s3: "recv_loop f c s2 (length p) [] = Inr (p, s3)"
      "avail (inbound s3) = rest" "outbound s3 = outbound s2"
      "sends_left s3 = sends_left s2" by auto
  show ?thesis using s1 s2 s3 by auto
qed

lemma server_decode:
  assumes "0 \<le> t" "t \<le> 255" "length p < 4294967296"
    and "avail (inbound s) = MAGIC @ (of_int t # be32 (length p)) @ p @ rest"
  shows "\<exists>s'. recv_packet s = Inr ((t, p), s') \<and> avail (inbound s') = rest
           \<and> outbound s' = outbound s \<and> sends_left s' = sends_left s"
proof -
  have l: "length (of_int t # be32 (length p)) = 5" by (simp add: be32_def)
  from three_reads[OF assms(4) l] obtain s1 s2 s3 where
    r: "recv_exact s 4 = Inr (MAGIC, s1)"
       "recv_exact s1 5 = Inr (of_int t # be32 (length p), s2)"
       "recv_exact s2 (length p) = Inr (p, s3)"
       "avail (inbound s3) = rest" "outbound s3 = outbound s" "sends_left s3 = sends_left s"
    unfolding recv_exact_def by blast
  show ?thesis
    using r be32_roundtrip[OF assms(1-3)] by (simp add: recv_packet_def)
qed

lemma client_decode:
  assumes "0 \<le> t" "t \<le> 255" "length p < 4294967296"
    and "avail (inbound s) = MAGIC @ (of_int t # be32 (length p)) @ p @ rest"
  shows "\<exists>s'. client_recv_packet_body lib s =
            (if t = TYPE_ERR then
               (case decode_strict lib p of
                  Inl m \<Rightarrow> Inl (Exn UnicodeDecodeError m)
                | Inr text \<Rightarrow> Inl (Exn PlainException text))
             else Inr ((t, p), s'))
           \<and> avail (inbound s') = rest
           \<and> outbound s' = outbound s \<and> sends_left s' = sends_left s"
proof -
  have l: "length (of_int t # be32 (length p)) = 5" by (simp add: be32_def)
  from three_reads[OF assms(4) l] obtain s1 s2 s3 where
    r: "client_recv_exact s 4 = Inr (MAGIC, s1)"
       "client_recv_exact s1 5 = Inr (of_int t # be32 (length p), s2)"
       "client_recv_exact s2 (length p) = Inr (p, s3)"
       "avail (inbound s3) = rest" "outbound s3 = outbound s" "sends_left s3 = sends_left s"
    unfolding client_recv_exact_def by blast
  show ?thesis
    using r be32_roundtrip[OF assms(1-3)] by (auto simp add: client_recv_packet_body_def)
qed

lemma cli_decode:
  assumes "0 \<le> t" "t \<le> 255" "length p < 4294967296"
    and "avail (inbound s) = MAGIC @ (of_int t # be32 (length p)) @ p @ rest"
  shows "\<exists>s'. cli_recv_packet_body lib s =
            (if t = TYPE_ERR then Inl (Exn PlainException (decode_ignore lib p))
             else Inr ((t, p), s'))
           \<and> avail (inbound s') = rest
           \<and> outbound s' = outbound s \<and> sends_left s' = sends_left s"
proof -
  have l: "length (of_int t # be32 (length p)) = 5" by (simp add: be32_def)
  from three_reads[OF assms(4) l] obtain s1 s2 s3 where
    r: "cli_recv_exact s 4 = Inr (MAGIC, s1)"
       "cli_recv_exact s1 5 = Inr (of_int t # be32 (length p), s2)"
       "cli_recv_exact s2 (length p) = Inr (p, s3)"
       "avail (inbound s3) = rest" "outbound s3 = outbound s" "sends_left s3 = sends_left s"
    unfolding cli_recv_exact_def by blast
  show ?thesis
    using r be32_roundtrip[OF assms(1-3)] by (auto simp add: cli_recv_packet_body_def)
qed

subsection \<open>C2: encoding then decoding\<close>

text \<open>
  Claim C2, as the programs have it. For a type byte \<open>t\<close> (0 to 255) and a payload
  shorter than \<open>2^32\<close> bytes, \<^verbatim>\<open>pack\<close> succeeds, and from any stream that starts with
  the packed bytes, however \<^verbatim>\<open>recv\<close> cuts it into pieces, the server's \<^verbatim>\<open>recv_packet\<close>
  returns exactly \<open>(t, payload)\<close> and leaves the rest of the stream unread. The two
  client decoders do the same for every type except the reserved error type 0x07, on
  which they raise instead of returning (see C3).
\<close>

theorem framing_round_trip:
  assumes "0 \<le> t" "t \<le> 255" "length p < 4294967296"
  shows "\<exists>bs. pack t p = Inr bs \<and>
           (\<forall>(s::sock) rest. avail (inbound s) = bs @ rest \<longrightarrow>
              (\<exists>s'. recv_packet s = Inr ((t, p), s') \<and> avail (inbound s') = rest) \<and>
              (t \<noteq> TYPE_ERR \<longrightarrow>
                 (\<exists>s'. client_recv_packet lib s = Inr ((t, p), s') \<and> avail (inbound s') = rest) \<and>
                 (\<exists>s'. cli_recv_packet lib s = Inr ((t, p), s') \<and> avail (inbound s') = rest)))"
proof -
  let ?bs = "MAGIC @ (of_int t # be32 (length p)) @ p"
  have pk: "pack t p = Inr ?bs"
    by (rule pack_ok[OF assms])
  have dec: "(\<exists>s'. recv_packet s = Inr ((t, p), s') \<and> avail (inbound s') = rest) \<and>
              (t \<noteq> TYPE_ERR \<longrightarrow>
                 (\<exists>s'. client_recv_packet lib s = Inr ((t, p), s') \<and> avail (inbound s') = rest) \<and>
                 (\<exists>s'. cli_recv_packet lib s = Inr ((t, p), s') \<and> avail (inbound s') = rest))"
    if "avail (inbound s) = ?bs @ rest" for s :: sock and rest
  proof -
    from that have a: "avail (inbound s) = MAGIC @ (of_int t # be32 (length p)) @ p @ rest"
      by simp
    have 1: "\<exists>s'. recv_packet s = Inr ((t, p), s') \<and> avail (inbound s') = rest"
      using server_decode[OF assms a] by blast
    have 2: "\<exists>s'. client_recv_packet lib s = Inr ((t, p), s') \<and> avail (inbound s') = rest"
      if "t \<noteq> TYPE_ERR"
      using client_decode[OF assms a, of lib] that by (auto simp: client_recv_packet_def)
    have 3: "\<exists>s'. cli_recv_packet lib s = Inr ((t, p), s') \<and> avail (inbound s') = rest"
      if "t \<noteq> TYPE_ERR"
      using cli_decode[OF assms a, of lib] that by (auto simp: cli_recv_packet_def)
    from 1 2 3 show ?thesis by blast
  qed
  from pk dec show ?thesis by blast
qed

theorem framing_round_trip_witness:
  "pack 5 [1, 2, 3] = Inr [0x4C, 0x44, 0x54, 0x31, 5, 0, 0, 0, 3, 1, 2, 3] \<and>
   (\<exists>s'. recv_packet \<lparr>inbound = [Data [0x4C, 0x44], Data [0x54, 0x31, 5, 0, 0], Data [0, 3, 1, 2, 3]],
                       outbound = [], sends_left = None\<rparr> = Inr ((5, [1, 2, 3]), s')
         \<and> avail (inbound s') = []) \<and>
   (\<exists>s'. client_recv_packet ascii_lib
            \<lparr>inbound = [Data [0x4C, 0x44], Data [0x54, 0x31, 5, 0, 0], Data [0, 3, 1, 2, 3]],
             outbound = [], sends_left = None\<rparr> = Inr ((5, [1, 2, 3]), s')
         \<and> avail (inbound s') = [])"
proof -
  let ?s = "\<lparr>inbound = [Data [0x4C, 0x44], Data [0x54, 0x31, 5, 0, 0], Data [0, 3, 1, 2, 3 :: 8 word]],
             outbound = [], sends_left = None\<rparr>"
  have p: "pack 5 [1, 2, 3] = Inr [0x4C, 0x44, 0x54, 0x31, 5, 0, 0, 0, 3, 1, 2, 3]"
    by (simp add: pack_def struct_pack_BI_def be32_def MAGIC_def)
  have a: "avail (inbound ?s) = [0x4C, 0x44, 0x54, 0x31, 5, 0, 0, 0, 3, 1, 2, 3] @ []"
    by simp
  from framing_round_trip[of 5 "[1, 2, 3]" ascii_lib] p a show ?thesis
    by (simp add: TYPE_ERR_def)
qed

text \<open>
  The claim as stated (every type byte, decoder \<^verbatim>\<open>recv_packet\<close> of Client.py) fails
  at type 0x07: decoding the packing of \<open>(7, b"no")\<close> raises
  \<^verbatim>\<open>ConnectionError("no")\<close> instead of returning \<open>(7, b"no")\<close>.
\<close>

theorem client_decode_err_counterexample:
  "pack TYPE_ERR [0x6E, 0x6F] = Inr [0x4C, 0x44, 0x54, 0x31, 7, 0, 0, 0, 2, 0x6E, 0x6F] \<and>
   client_recv_packet ascii_lib
     \<lparr>inbound = [Data [0x4C, 0x44, 0x54, 0x31, 7, 0, 0, 0, 2, 0x6E, 0x6F]],
      outbound = [], sends_left = None\<rparr> = Inl (Exn ConnectionError ''no'')"
  by (simp add: pack_def struct_pack_BI_def be32_def MAGIC_def TYPE_ERR_def
      client_recv_packet_def client_recv_packet_body_def client_recv_exact_def recv_def
      recv_loop.simps ascii_lib_def char_of_def bit_Suc_0_iff)

subsection \<open>C3: packets of the reserved error type\<close>

text \<open>
  Claim C3, as the programs have it. When the stream holds a packet of type 0x07, the
  two client decoders raise: \<^verbatim>\<open>recv_packet\<close> of Client.py raises a
  \<^verbatim>\<open>ConnectionError\<close> whose message is the strictly decoded payload (or, when the
  payload is not valid UTF-8, the text of the decoding error), and \<^verbatim>\<open>recv_packet\<close> of
  CLI-Client.py raises one whose message is \<^verbatim>\<open>"Packet error: "\<close> followed by the
  leniently decoded payload. The server's \<^verbatim>\<open>recv_packet\<close> has no such check and
  returns \<open>(7, payload)\<close> as an ordinary packet.
\<close>

theorem err_packet_decoding:
  assumes "pack TYPE_ERR p = Inr bs" and "avail (inbound s) = bs @ rest"
  shows "client_recv_packet lib s =
           Inl (Exn ConnectionError (case decode_strict lib p of Inl m \<Rightarrow> m | Inr text \<Rightarrow> text))
       \<and> cli_recv_packet lib s =
           Inl (Exn ConnectionError (''Packet error: '' @ decode_ignore lib p))
       \<and> (\<exists>s'. recv_packet s = Inr ((TYPE_ERR, p), s') \<and> avail (inbound s') = rest)"
proof -
  have len: "length p < 4294967296"
    using assms(1) by (auto simp: pack_def struct_pack_BI_def split: if_splits)
  have t: "0 \<le> TYPE_ERR" "TYPE_ERR \<le> 255" by (simp_all add: TYPE_ERR_def)
  have "bs = MAGIC @ (of_int TYPE_ERR # be32 (length p)) @ p"
    using assms(1) pack_ok[OF t len] by simp
  with assms(2) have a: "avail (inbound s) = MAGIC @ (of_int TYPE_ERR # be32 (length p)) @ p @ rest"
    by simp
  have 1: "client_recv_packet lib s =
           Inl (Exn ConnectionError (case decode_strict lib p of Inl m \<Rightarrow> m | Inr text \<Rightarrow> text))"
    using client_decode[OF t len a, of lib]
    by (auto simp: client_recv_packet_def split: sum.splits)
  have 2: "cli_recv_packet lib s =
           Inl (Exn ConnectionError (''Packet error: '' @ decode_ignore lib p))"
    using cli_decode[OF t len a, of lib] by (auto simp: cli_recv_packet_def)
  have 3: "\<exists>s'. recv_packet s = Inr ((TYPE_ERR, p), s') \<and> avail (inbound s') = rest"
    using server_decode[OF t len a] by blast
  from 1 2 3 show ?thesis by blast
qed

theorem err_packet_decoding_witness:
  "client_recv_packet ascii_lib
     \<lparr>inbound = [Data [0x4C, 0x44, 0x54], Data [0x31, 7, 0, 0, 0, 2, 0x6E], Data [0x6F]],
      outbound = [], sends_left = None\<rparr> = Inl (Exn ConnectionError ''no'')
   \<and> cli_recv_packet ascii_lib
     \<lparr>inbound = [Data [0x4C, 0x44, 0x54], Data [0x31, 7, 0, 0, 0, 2, 0x6E], Data [0x6F]],
      outbound = [], sends_left = None\<rparr> = Inl (Exn ConnectionError ''Packet error: no'')"
proof -
  let ?s = "\<lparr>inbound = [Data [0x4C, 0x44, 0x54], Data [0x31, 7, 0, 0, 0, 2, 0x6E], Data [0x6F :: 8 word]],
             outbound = [], sends_left = None\<rparr>"
  have p: "pack TYPE_ERR [0x6E, 0x6F] = Inr [0x4C, 0x44, 0x54, 0x31, 7, 0, 0, 0, 2, 0x6E, 0x6F]"
    by (simp add: pack_def struct_pack_BI_def be32_def MAGIC_def TYPE_ERR_def)
  have a: "avail (inbound ?s) = [0x4C, 0x44, 0x54, 0x31, 7, 0, 0, 0, 2, 0x6E, 0x6F] @ []"
    by simp
  from err_packet_decoding[OF p a, of ascii_lib] show ?thesis
    by (simp add: ascii_lib_def char_of_def bit_Suc_0_iff)
qed

text \<open>
  The claim as stated (no decoder hands an error packet to its caller, the server's
  included) fails on the server: its \<^verbatim>\<open>recv_packet\<close> returns the packet
  \<open>(7, b"no")\<close> like any other.
\<close>

theorem server_returns_err_packet_counterexample:
  "recv_packet
     \<lparr>inbound = [Data [0x4C, 0x44, 0x54, 0x31, 7, 0, 0, 0, 2, 0x6E, 0x6F]],
      outbound = [], sends_left = None\<rparr>
   = Inr ((TYPE_ERR, [0x6E, 0x6F]), \<lparr>inbound = [], outbound = [], sends_left = None\<rparr>)"
  by (simp add: MAGIC_def TYPE_ERR_def recv_packet_def recv_exact_def recv_def recv_loop.simps)

subsection \<open>Splitting and joining\<close>

lemma split_sep_nonempty: "split_sep c s \<noteq> []"
  by (induction s) (auto split: list.splits)

lemma split_sep_no_sep: "w \<in> set (split_sep c s) \<Longrightarrow> c \<notin> set w"
  by (induction s arbitrary: w) (auto split: if_splits list.splits)

lemma split_sep_plain: "c \<notin> set x \<Longrightarrow> split_sep c x = [x]"
  by (induction x) auto

lemma split_sep_append_sep: "split_sep c (a @ c # b) = split_sep c a @ split_sep c b"
proof (induction a)
  case Nil
  show ?case by simp
next
  case (Cons x a)
  obtain w ws where "split_sep c a = w # ws"
    using split_sep_nonempty[of c a] by (cases "split_sep c a") auto
  with Cons show ?case by simp
qed

lemma split_sep_replicate:
  "split_sep c (replicate k c @ x) = replicate k [] @ split_sep c x"
  by (induction k) auto

lemma split_join_sep:
  "comps \<noteq> [] \<Longrightarrow> \<forall>w\<in>set comps. c \<notin> set w \<Longrightarrow> split_sep c (join_sep [c] comps) = comps"
proof (induction "[c]" comps rule: join_sep.induct)
  case 1
  then show ?case by simp
next
  case (2 x)
  then show ?case by (simp add: split_sep_plain)
next
  case (3 x y ys)
  have "split_sep c (x @ c # join_sep [c] (y # ys)) = split_sep c x @ split_sep c (join_sep [c] (y # ys))"
    by (rule split_sep_append_sep)
  with 3 show ?case by (simp add: split_sep_plain)
qed

subsection \<open>Normalised paths\<close>

lemma norm_step_plain:
  assumes "0 < k" and "\<forall>w\<in>set acc. plain_name w" and "CHR ''/'' \<notin> set part"
  shows "\<forall>w\<in>set (norm_step k acc part). plain_name w"
proof -
  have l: "acc \<noteq> [] \<Longrightarrow> last acc \<noteq> ''..''"
    using assms(2) last_in_set[of acc] by (auto simp: plain_name_def)
  have b: "\<forall>w\<in>set (butlast acc). plain_name w"
    using assms(2) by (auto dest: in_set_butlastD)
  show ?thesis
    using assms l b unfolding norm_step_def
    by (auto simp: plain_name_def)
qed

lemma foldl_norm_step_plain:
  assumes "0 < k"
  shows "\<forall>w\<in>set acc. plain_name w \<Longrightarrow> \<forall>w\<in>set parts. CHR ''/'' \<notin> set w \<Longrightarrow>
         \<forall>w\<in>set (foldl (norm_step k) acc parts). plain_name w"
proof (induction parts arbitrary: acc)
  case Nil
  then show ?case by simp
next
  case (Cons p parts)
  have "\<forall>w\<in>set (norm_step k acc p). plain_name w"
    using norm_step_plain[OF assms Cons.prems(1), of p] Cons.prems(2) by simp
  from Cons.IH[OF this] Cons.prems(2) show ?case by simp
qed

lemma normpath_abs:
  assumes "isabs p"
  shows "\<exists>k comps. 0 < k \<and> normpath p = replicate k CHR ''/'' @ join_sep ''/'' comps
            \<and> (\<forall>w\<in>set comps. plain_name w)"
proof -
  from assms have ne: "p \<noteq> []" by (auto simp: isabs_def startswith_def)
  define k :: nat where "k = (if startswith p ''//'' \<and> \<not> startswith p ''///'' then 2 else 1)"
  define comps where "comps = foldl (norm_step k) [] (split_sep CHR ''/'' p)"
  have k: "0 < k" by (simp add: k_def)
  have pl: "\<forall>w\<in>set comps. plain_name w"
    unfolding comps_def
    by (rule foldl_norm_step_plain[OF k]) (auto dest: split_sep_no_sep)
  have "replicate k CHR ''/'' @ join_sep ''/'' comps \<noteq> []" using k by simp
  then have "normpath p = replicate k CHR ''/'' @ join_sep ''/'' comps"
    using ne assms unfolding normpath_def isabs_def k_def comps_def Let_def
    by simp
  with k pl show ?thesis by blast
qed

lemma normpath_abs_components:
  assumes "isabs p"
  shows "isabs (normpath p) \<and> ''..'' \<notin> set (split_sep CHR ''/'' (normpath p))"
proof -
  from normpath_abs[OF assms] obtain k comps where
    k: "0 < k" and n: "normpath p = replicate k CHR ''/'' @ join_sep ''/'' comps"
    and pl: "\<forall>w\<in>set comps. plain_name w" by blast
  have abs: "isabs (normpath p)"
    using k n by (cases k) (auto simp: isabs_def startswith_def)
  have sp: "set (split_sep CHR ''/'' (join_sep ''/'' comps)) \<subseteq> insert [] (set comps)"
  proof (cases "comps = []")
    case True
    then show ?thesis by simp
  next
    case False
    then have "split_sep CHR ''/'' (join_sep [CHR ''/''] comps) = comps"
      using pl by (intro split_join_sep) (auto simp: plain_name_def)
    then show ?thesis by auto
  qed
  have "split_sep CHR ''/'' (normpath p)
          = replicate k [] @ split_sep CHR ''/'' (join_sep ''/'' comps)"
    unfolding n by (rule split_sep_replicate)
  then have "set (split_sep CHR ''/'' (normpath p)) \<subseteq> insert [] (set comps)"
    using sp by auto
  moreover have "''..'' \<notin> insert [] (set comps)"
    using pl by (auto simp: plain_name_def)
  ultimately show ?thesis using abs by blast
qed

subsection \<open>The path guard\<close>

lemma lstrip_not_startswith:
  assumes "c \<in> set chars"
  shows "\<not> startswith (lstrip s chars) [c]"
proof
  assume "startswith (lstrip s chars) [c]"
  then obtain t where "dropWhile (\<lambda>x. x \<in> set chars) s = c # t"
    by (auto simp: startswith_def lstrip_def prefix_def)
  then have "c \<notin> set chars"
    by (simp add: dropWhile_eq_Cons_conv)
  with assms show False by simp
qed

lemma lstrip_not_slash: "\<not> startswith (lstrip s [CHR 0x5C, CHR ''/'', CHR '' '']) ''/''"
  by (rule lstrip_not_startswith) simp

lemma join_isabs: "isabs a \<Longrightarrow> \<not> startswith b ''/'' \<Longrightarrow> isabs (join a b)"
  by (cases a) (auto simp: join_def isabs_def startswith_def)

lemma safe_path_inside:
  assumes "isabs root_dir" and "safe_path root_dir cwd rel_path = Inr full"
  shows "inside root_dir full \<and> isabs full"
proof -
  let ?rel = "lstrip rel_path [CHR 0x5C, CHR ''/'', CHR '' '']"
  have a: "isabs (join root_dir ?rel)"
    by (rule join_isabs[OF assms(1) lstrip_not_slash])
  from assms(2) have f: "full = abspath cwd (join root_dir ?rel)"
    and p: "startswith full (join root_dir [])"
    by (auto simp: safe_path_def Let_def split: if_splits)
  from a f have "full = normpath (join root_dir ?rel)" by (simp add: abspath_def)
  with normpath_abs_components[OF a] p show ?thesis by (simp add: inside_def)
qed

lemma safe_path_error:
  "safe_path root_dir cwd rel_path = Inl e \<Longrightarrow>
     e = Exn ValueError ''Security: Path traversal attempt blocked''"
  by (auto simp: safe_path_def Let_def split: if_splits)

lemma inside_child:
  assumes "inside root_dir full" and "plain_name n"
  shows "inside root_dir (join full n)"
proof -
  from assms(2) have ns: "\<not> startswith n ''/''"
    by (cases n) (auto simp: plain_name_def startswith_def)
  have sn: "split_sep CHR ''/'' n = [n]"
    using assms(2) by (simp add: split_sep_plain plain_name_def)
  show ?thesis
  proof (cases "full = [] \<or> endswith full ''/''")
    case False
    then have j: "join full n = full @ CHR ''/'' # n" using ns by (simp add: join_def)
    have "split_sep CHR ''/'' (join full n) = split_sep CHR ''/'' full @ [n]"
      unfolding j by (simp add: split_sep_append_sep sn)
    moreover have "startswith (join full n) (join root_dir [])"
      using assms(1) unfolding j inside_def startswith_def by (auto intro: prefix_prefix)
    ultimately show ?thesis using assms by (auto simp: inside_def plain_name_def)
  next
    case True
    then have j: "join full n = full @ n" using ns by (simp add: join_def)
    have pre: "startswith (join full n) (join root_dir [])"
      using assms(1) unfolding j inside_def startswith_def by (auto intro: prefix_prefix)
    show ?thesis
    proof (cases "full = []")
      case True
      with j sn pre assms show ?thesis by (auto simp: inside_def plain_name_def)
    next
      case False
      with \<open>full = [] \<or> endswith full ''/''\<close> obtain g where g: "full = g @ ''/''"
        by (auto simp: endswith_def suffix_def)
      have "split_sep CHR ''/'' full = split_sep CHR ''/'' g @ [[]]"
        unfolding g using split_sep_append_sep[of "CHR ''/''" g "[]"] by simp
      moreover have "join full n = g @ CHR ''/'' # n" using j g by simp
      then have "split_sep CHR ''/'' (join full n) = split_sep CHR ''/'' g @ [n]"
        using split_sep_append_sep[of "CHR ''/''" g n] sn by simp
      ultimately show ?thesis using pre assms by (auto simp: inside_def plain_name_def)
    qed
  qed
qed

subsection \<open>What the handlers read of the file system\<close>

lemma list_entry_agree:
  assumes "fs_agree root_dir fs fs'" and "inside root_dir full" and "plain_name n"
  shows "list_entry fs full n = list_entry fs' full n"
proof -
  have "inside root_dir (join full n)" by (rule inside_child[OF assms(2,3)])
  with assms(1) have "stat fs (join full n) = stat fs' (join full n)"
    and "isdir fs (join full n) = isdir fs' (join full n)"
    by (auto simp: fs_agree_def)
  then show ?thesis by (auto simp: list_entry_def Let_def split: option.splits)
qed

lemma map_filter_cong_set:
  "(\<And>x. x \<in> set xs \<Longrightarrow> f x = g x) \<Longrightarrow> List.map_filter f xs = List.map_filter g xs"
  by (induction xs) (auto simp: List.map_filter_def)

lemma list_dir_try_agree:
  assumes "isabs root_dir" and "fs_agree root_dir fs fs'" and "proper_listing fs"
  shows "list_dir_try root_dir cwd fs rel_path = list_dir_try root_dir cwd fs' rel_path"
proof (cases "safe_path root_dir cwd rel_path")
  case (Inl e)
  then show ?thesis by (simp add: list_dir_try_def)
next
  case (Inr full)
  from safe_path_inside[OF assms(1) Inr] have ins: "inside root_dir full" by simp
  with assms(2) have d: "isdir fs full = isdir fs' full"
    and l: "listdir fs full = listdir fs' full"
    by (auto simp: fs_agree_def)
  show ?thesis
  proof (cases "listdir fs full")
    case None
    with l have l': "listdir fs' full = None" by simp
    show ?thesis using d by (simp add: list_dir_try_def Inr None l')
  next
    case (Some names)
    with assms(3) have "\<forall>n\<in>set names. plain_name n"
      by (auto simp: proper_listing_def)
    then have mf: "List.map_filter (list_entry fs full) names = List.map_filter (list_entry fs' full) names"
      by (intro map_filter_cong_set list_entry_agree[OF assms(2) ins]) simp
    from l Some have l': "listdir fs' full = Some names" by simp
    show ?thesis using d by (simp add: list_dir_try_def Inr Some l' mf)
  qed
qed

lemma list_dir_agree:
  assumes "isabs root_dir" and "fs_agree root_dir fs fs'" and "proper_listing fs"
  shows "list_dir root_dir cwd fs rel_path = list_dir root_dir cwd fs' rel_path"
  by (simp add: list_dir_def list_dir_try_agree[OF assms])

lemma stream_range_agree:
  assumes "fs_agree root_dir fs fs'" and "inside root_dir fp"
  shows "stream_range lib fs s fp sz st en = stream_range lib fs' s fp sz st en"
proof -
  from assms have eq: "open_rb fs fp = open_rb fs' fp" by (simp add: fs_agree_def)
  show ?thesis by (simp only: stream_range_def eq)
qed

lemma handle_get_agree:
  assumes "isabs root_dir" and "fs_agree root_dir fs fs'"
  shows "handle_get lib root_dir cwd fs s payload = handle_get lib root_dir cwd fs' s payload"
proof (cases "\<exists>path a b. split_sep CHR ''|'' (decode_replace lib payload) = [path, a, b]")
  case False
  then show ?thesis by (auto simp: handle_get_def split: list.splits)
next
  case True
  then obtain path a b where sp: "split_sep CHR ''|'' (decode_replace lib payload) = [path, a, b]"
    by blast
  show ?thesis
  proof (cases "safe_path root_dir cwd path")
    case (Inl e)
    with sp show ?thesis by (simp add: handle_get_def)
  next
    case (Inr fp)
    from safe_path_inside[OF assms(1) Inr] have ins: "inside root_dir fp" by simp
    with assms(2) have eq: "isfile fs fp = isfile fs' fp" "stat fs fp = stat fs' fp"
      by (auto simp: fs_agree_def)
    show ?thesis
      by (simp only: handle_get_def sp Inr eq stream_range_agree[OF assms(2) ins] list.case sum.case
          cong: option.case_cong prod.case_cong if_cong)
  qed
qed

lemma handle_request_agree:
  assumes "isabs root_dir" and "fs_agree root_dir fs fs'" and "proper_listing fs"
  shows "handle_request lib root_dir cwd fs s t payload
           = handle_request lib root_dir cwd fs' s t payload"
  by (simp add: handle_request_def handle_list_def list_dir_agree[OF assms]
      handle_get_agree[OF assms(1,2)])

lemma handle_client_agree:
  assumes "isabs root_dir" and "fs_agree root_dir fs fs'" and "proper_listing fs"
  shows "handle_client lib root_dir cwd fs s = handle_client lib root_dir cwd fs' s"
  using assms
proof (induction lib root_dir cwd fs s rule: handle_client.induct)
  case (1 lib root_dir cwd fs s)
  note agree = handle_request_agree[OF "1.prems"]
  show ?case
  proof (cases "recv_packet s")
    case (Inl e)
    then show ?thesis by (simp add: handle_client.simps)
  next
    case (Inr r)
    obtain t payload s1 where r: "r = ((t, payload), s1)" by (cases r) auto
    obtain e s2 where h: "handle_request lib root_dir cwd fs s1 t payload = (e, s2)"
      by (cases "handle_request lib root_dir cwd fs s1 t payload")
    with agree have h': "handle_request lib root_dir cwd fs' s1 t payload = (e, s2)" by simp
    show ?thesis
    proof (cases e)
      case (Some x)
      with Inr r h h' show ?thesis by (simp add: handle_client.simps)
    next
      case None
      have "handle_client lib root_dir cwd fs s2 = handle_client lib root_dir cwd fs' s2"
        using "1.IH"[OF Inr[unfolded r] _ _ h[symmetric]] None "1.prems" by simp
      with Inr r h h' None show ?thesis by (simp add: handle_client.simps)
    qed
  qed
qed

lemmas path_eval = safe_path_def lstrip_def abspath_def join_def startswith_def endswith_def
  isabs_def normpath_def norm_step_def suffix_to_prefix Let_def

text \<open>The root the server computes for itself is absolute, as the working directory is.\<close>

lemma ROOT_isabs:
  assumes "isabs cwd"
  shows "isabs (ROOT cwd)"
proof -
  have "\<not> startswith ''D:/'' ''/''" by (simp add: startswith_def)
  from join_isabs[OF assms this] have "isabs (join cwd ''D:/'')" .
  from normpath_abs_components[OF this] show ?thesis
    by (simp add: ROOT_def abspath_def isabs_def startswith_def)
qed

lemma follow_agree:
  assumes "links_stay_inside root_dir rp" and "fs_agree root_dir fs fs'"
  shows "fs_agree root_dir (follow rp fs) (follow rp fs')"
  using assms by (simp add: fs_agree_def follow_def links_stay_inside_def)

lemma follow_proper: "proper_listing fs \<Longrightarrow> proper_listing (follow rp fs)"
  by (simp add: proper_listing_def follow_def)

subsection \<open>C1: paths stay inside the root\<close>

text \<open>
  Claim C1, as the server has it. For an absolute root, \<^verbatim>\<open>safe_path\<close> either raises
  its security error or returns an absolute path that starts with \<^verbatim>\<open>join(ROOT, "")\<close>,
  the root followed by a separator (the root itself when it already ends in one), and
  has no \<^verbatim>\<open>..\<close> component left, whatever the client sent: as a string the result
  never lies outside the root. The server does not resolve symbolic links. On a tree
  where no path inside the root leads to an entry outside it, neither \<^verbatim>\<open>list_dir\<close>
  nor a whole connection handled by \<^verbatim>\<open>handle_client\<close> (every LIST and GET on it)
  depends on any entry outside the root: on two trees that hold the same entries
  inside the root they return and send the same.
\<close>

theorem root_confinement:
  assumes "isabs root_dir"
  shows "(case safe_path root_dir cwd rel_path of
            Inl e \<Rightarrow> e = Exn ValueError ''Security: Path traversal attempt blocked''
          | Inr full \<Rightarrow>
              isabs full \<and> startswith full (join root_dir [])
              \<and> (if endswith root_dir ''/'' then startswith full root_dir
                  else startswith full (root_dir @ ''/''))
              \<and> ''..'' \<notin> set (split_sep CHR ''/'' full))
       \<and> (\<forall>rp fs fs'.
             links_stay_inside root_dir rp \<and> fs_agree root_dir fs fs' \<and> proper_listing fs \<longrightarrow>
             list_dir root_dir cwd (follow rp fs) rel_path
               = list_dir root_dir cwd (follow rp fs') rel_path
             \<and> handle_client lib root_dir cwd (follow rp fs) s
               = handle_client lib root_dir cwd (follow rp fs') s)"
proof -
  have 1: "(case safe_path root_dir cwd rel_path of
            Inl e \<Rightarrow> e = Exn ValueError ''Security: Path traversal attempt blocked''
          | Inr full \<Rightarrow>
              isabs full \<and> startswith full (join root_dir [])
              \<and> (if endswith root_dir ''/'' then startswith full root_dir
                  else startswith full (root_dir @ ''/''))
              \<and> ''..'' \<notin> set (split_sep CHR ''/'' full))"
  proof (cases "safe_path root_dir cwd rel_path")
    case (Inl e)
    with safe_path_error[OF Inl] show ?thesis by simp
  next
    case (Inr full)
    from safe_path_inside[OF assms Inr] have i: "isabs full" "startswith full (join root_dir [])"
      "''..'' \<notin> set (split_sep CHR ''/'' full)"
      by (simp_all add: inside_def)
    from assms have "root_dir \<noteq> []" by (auto simp: isabs_def startswith_def)
    with i(2) have "if endswith root_dir ''/'' then startswith full root_dir
                    else startswith full (root_dir @ ''/'')"
      by (auto simp: join_def startswith_def)
    with Inr i show ?thesis by simp
  qed
  have 2: "list_dir root_dir cwd (follow rp fs) rel_path
               = list_dir root_dir cwd (follow rp fs') rel_path
             \<and> handle_client lib root_dir cwd (follow rp fs) s
               = handle_client lib root_dir cwd (follow rp fs') s"
    if h: "links_stay_inside root_dir rp \<and> fs_agree root_dir fs fs' \<and> proper_listing fs"
    for rp fs fs'
  proof -
    from h have a: "fs_agree root_dir (follow rp fs) (follow rp fs')"
      by (intro follow_agree) simp_all
    from h have p: "proper_listing (follow rp fs)" by (intro follow_proper) simp
    from list_dir_agree[OF assms a p] handle_client_agree[OF assms a p] show ?thesis by simp
  qed
  from 1 2 show ?thesis by blast
qed

lemma demo_fs_agree: "fs_agree ''/srv/files'' demo_fs demo_fs'"
proof -
  have "p \<noteq> ''/etc/passwd''" if "inside ''/srv/files'' p" for p
    using that by (auto simp: inside_def startswith_def join_def endswith_def suffix_to_prefix)
  then show ?thesis
    by (simp add: fs_agree_def demo_fs'_def demo_fs_def)
qed

lemma demo_fs_proper: "proper_listing demo_fs"
  by (auto simp: proper_listing_def demo_fs_def plain_name_def split: if_splits)

lemma demo_alias_agree:
  "fs_agree ''/srv/files'' (add_names [''alias''] demo_fs) (add_names [''alias''] demo_fs')"
  using demo_fs_agree by (simp add: fs_agree_def add_names_def)

lemma demo_alias_proper: "proper_listing (add_names [''alias''] demo_fs)"
  by (auto simp: proper_listing_def add_names_def demo_fs_def plain_name_def
      split: if_splits)

lemma demo_alias_inside: "links_stay_inside ''/srv/files'' demo_alias"
proof -
  have "inside ''/srv/files'' ''/srv/files/a.txt''"
    by (simp add: inside_def startswith_def join_def endswith_def suffix_to_prefix)
  then show ?thesis by (simp add: links_stay_inside_def demo_alias_def)
qed

theorem root_confinement_witness:
  "safe_path ''/srv/files'' ''/'' ''/sub/../a.txt'' = Inr ''/srv/files/a.txt''
   \<and> safe_path ''/srv/files'' ''/'' ''sub/../../../etc/passwd''
        = Inl (Exn ValueError ''Security: Path traversal attempt blocked'')
   \<and> list_dir ''/srv/files'' ''/'' (follow demo_alias (add_names [''alias''] demo_fs)) ''../../etc''
        = list_dir ''/srv/files'' ''/'' (follow demo_alias (add_names [''alias''] demo_fs')) ''../../etc''
   \<and> handle_client ascii_lib ''/srv/files'' ''/'' (follow demo_alias (add_names [''alias''] demo_fs))
        \<lparr>inbound = [Data [0x4C, 0x44, 0x54, 0x31, 3, 0, 0, 0, 10,
                          0x61, 0x6C, 0x69, 0x61, 0x73, 0x7C, 0x30, 0x7C, 0x2D, 0x31]],
          outbound = [], sends_left = None\<rparr>
      = handle_client ascii_lib ''/srv/files'' ''/'' (follow demo_alias (add_names [''alias''] demo_fs'))
        \<lparr>inbound = [Data [0x4C, 0x44, 0x54, 0x31, 3, 0, 0, 0, 10,
                          0x61, 0x6C, 0x69, 0x61, 0x73, 0x7C, 0x30, 0x7C, 0x2D, 0x31]],
          outbound = [], sends_left = None\<rparr>"
proof -
  have a: "isabs ''/srv/files''" by (simp add: isabs_def startswith_def)
  have 1: "safe_path ''/srv/files'' ''/'' ''/sub/../a.txt'' = Inr ''/srv/files/a.txt''"
    by (simp add: path_eval)
  have 2: "safe_path ''/srv/files'' ''/'' ''sub/../../../etc/passwd''
        = Inl (Exn ValueError ''Security: Path traversal attempt blocked'')"
    by (simp add: path_eval)
  from root_confinement[OF a, of "''/'' " "''../../etc''" ascii_lib
      "\<lparr>inbound = [Data [0x4C, 0x44, 0x54, 0x31, 3, 0, 0, 0, 10,
                          0x61, 0x6C, 0x69, 0x61, 0x73, 0x7C, 0x30, 0x7C, 0x2D, 0x31]],
          outbound = [], sends_left = None\<rparr>"]
    demo_alias_inside demo_alias_agree demo_alias_proper 1 2
  show ?thesis by blast
qed

subsection \<open>C4: resolving the root itself\<close>

text \<open>
  Claim C4 says that a path resolving to the root itself, such as \<^verbatim>\<open>"/"\<close>, is accepted
  and that the root can be listed. \<^verbatim>\<open>safe_path\<close> tests only for the prefix
  \<^verbatim>\<open>join(ROOT, "")\<close>, the root with a trailing separator, which the root itself does
  not have unless it ends in a separator. With the root \<^verbatim>\<open>/srv/files\<close> the request
  \<^verbatim>\<open>LIST "/"\<close> is rejected and the listing is empty although the directory has
  entries; the same holds for the root the program computes for itself,
  \<^verbatim>\<open>abspath("D:/")\<close>, in any working directory. Only a root that ends in a separator,
  such as \<^verbatim>\<open>/\<close>, resolves.
\<close>

theorem root_itself_rejected:
  "safe_path ''/srv/files'' ''/'' ''/''
     = Inl (Exn ValueError ''Security: Path traversal attempt blocked'')
   \<and> list_dir ''/srv/files'' ''/'' demo_fs ''/'' = []
   \<and> ROOT ''/home/ldt'' = ''/home/ldt/D:''
   \<and> safe_path (ROOT ''/home/ldt'') ''/home/ldt'' ''/''
     = Inl (Exn ValueError ''Security: Path traversal attempt blocked'')
   \<and> safe_path ''/'' ''/'' ''/'' = Inr ''/''"
  by (simp add: path_eval list_dir_def list_dir_try_def ROOT_def)

subsection \<open>C7: listing never fails\<close>

text \<open>
  Claim C7. \<^verbatim>\<open>list_dir\<close> returns a list in every case: the empty list when the
  path guard rejects the path, when the target is not a directory and when
  \<^verbatim>\<open>os.listdir\<close> fails; otherwise one entry, in order, for each name whose
  \<^verbatim>\<open>os.stat\<close> succeeds, the names whose \<^verbatim>\<open>os.stat\<close> fails being left out.
\<close>

theorem list_dir_total:
  "(\<forall>e. safe_path root_dir cwd rel_path = Inl e \<longrightarrow> list_dir root_dir cwd fs rel_path = [])
   \<and> (\<forall>full. safe_path root_dir cwd rel_path = Inr full \<longrightarrow>
         (\<not> isdir fs full \<longrightarrow> list_dir root_dir cwd fs rel_path = [])
       \<and> (isdir fs full \<and> listdir fs full = None \<longrightarrow> list_dir root_dir cwd fs rel_path = [])
       \<and> (\<forall>names. isdir fs full \<and> listdir fs full = Some names \<longrightarrow>
             list_dir root_dir cwd fs rel_path = List.map_filter (list_entry fs full) names
           \<and> map e_name (list_dir root_dir cwd fs rel_path)
               = filter (\<lambda>n. stat fs (join full n) \<noteq> None) names))"
proof -
  have names: "map e_name (List.map_filter (list_entry fs full) names)
                 = filter (\<lambda>n. stat fs (join full n) \<noteq> None) names" for full names
    by (induction names)
      (auto simp: List.map_filter_def list_entry_def Let_def split: option.splits)
  show ?thesis
    by (auto simp: list_dir_def list_dir_try_def names)
qed

theorem list_dir_total_witness:
  "list_dir ''/srv'' ''/'' demo_fs ''files''
     = [\<lparr>e_name = ''a.txt'', e_dir = False, e_size = 10, e_mtime = 1700000000\<rparr>,
        \<lparr>e_name = ''sub'', e_dir = True, e_size = 0, e_mtime = 1700000001\<rparr>]
   \<and> map e_name (list_dir ''/srv'' ''/'' demo_fs ''files'') = [''a.txt'', ''sub'']
   \<and> list_dir ''/srv'' ''/'' demo_fs ''files/a.txt'' = []
   \<and> list_dir ''/srv'' ''/'' demo_fs ''../etc'' = []"
proof -
  have 1: "safe_path ''/srv'' ''/'' ''files'' = Inr ''/srv/files''"
    by (simp add: path_eval)
  have 2: "safe_path ''/srv'' ''/'' ''files/a.txt'' = Inr ''/srv/files/a.txt''"
    by (simp add: path_eval)
  have 3: "safe_path ''/srv'' ''/'' ''../etc''
             = Inl (Exn ValueError ''Security: Path traversal attempt blocked'')"
    by (simp add: path_eval)
  have d: "isdir demo_fs ''/srv/files'' \<and> listdir demo_fs ''/srv/files'' = Some [''a.txt'', ''sub'', ''locked'']"
    by (simp add: demo_fs_def)
  have f: "\<not> isdir demo_fs ''/srv/files/a.txt''"
    by (simp add: demo_fs_def)
  from list_dir_total[of "''/srv''" "''/''" "''files''" demo_fs] 1 d
  have a: "list_dir ''/srv'' ''/'' demo_fs ''files''
             = List.map_filter (list_entry demo_fs ''/srv/files'') [''a.txt'', ''sub'', ''locked'']"
    and b: "map e_name (list_dir ''/srv'' ''/'' demo_fs ''files'')
             = filter (\<lambda>n. stat demo_fs (join ''/srv/files'' n) \<noteq> None) [''a.txt'', ''sub'', ''locked'']"
    by blast+
  from list_dir_total[of "''/srv''" "''/''" "''files/a.txt''" demo_fs] 2 f
  have c: "list_dir ''/srv'' ''/'' demo_fs ''files/a.txt'' = []" by blast
  from list_dir_total[of "''/srv''" "''/''" "''../etc''" demo_fs] 3
  have e: "list_dir ''/srv'' ''/'' demo_fs ''../etc'' = []" by blast
  show ?thesis
    unfolding a c e
    by (simp add: List.map_filter_def list_entry_def demo_fs_def join_def startswith_def
        endswith_def suffix_to_prefix)
qed

subsection \<open>Sending\<close>

lemma length_str_nat:
  "0 < k \<Longrightarrow> n < 10 ^ k \<Longrightarrow> length (str_nat n) \<le> k"
proof (induction n arbitrary: k rule: str_nat.induct)
  case (1 n)
  show ?case
  proof (cases "n < 10")
    case True
    with 1(2) show ?thesis by (subst str_nat.simps) simp
  next
    case False
    with 1(2,3) have k: "1 < k" by (cases "k = 1") auto
    then obtain j where j: "k = Suc j" "0 < j" by (cases k) auto
    from 1(3) j have "n div 10 < 10 ^ j"
      by (simp add: less_mult_imp_div_less mult.commute)
    from 1(1)[OF False j(2) this] have "length (str_nat (n div 10)) \<le> j" .
    with False j show ?thesis by (subst str_nat.simps) simp
  qed
qed

lemma length_meta:
  assumes "sz < 2 ^ 64"
  shows "length (ascii_bytes (str_nat sz)) < 4294967296"
proof -
  have "sz < (10::nat) ^ 20" using assms by simp
  from length_str_nat[OF _ this] show ?thesis by (simp add: ascii_bytes_def)
qed

lemma send_packet_ok:
  assumes "sends_left s = None" and "0 \<le> t" "t \<le> 255" and "length p < 4294967296"
  shows "\<exists>pkt. pack t p = Inr pkt
           \<and> send_packet s t p = (None, s\<lparr>outbound := outbound s @ [pkt]\<rparr>)"
  using assms pack_ok[OF assms(2-4)] by (simp add: send_packet_def sendall_def)

lemma send_chunks_complete:
  assumes "sends_left s = None" and "remaining \<le> length f"
  shows "\<exists>chunks pkts s'. send_chunks s f remaining = (None, s')
           \<and> outbound s' = outbound s @ pkts \<and> sends_left s' = None
           \<and> inbound s' = inbound s
           \<and> map (pack TYPE_CHUNK) chunks = map Inr pkts
           \<and> concat chunks = take remaining f
           \<and> (\<forall>c\<in>set chunks. c \<noteq> [] \<and> length c \<le> CHUNK_SIZE)"
  using assms
proof (induction remaining arbitrary: s f rule: less_induct)
  case (less remaining)
  note prems = less.prems
  show ?case
  proof (cases "remaining = 0")
    case True
    then have "send_chunks s f remaining = (None, s)" by (intro send_chunks_stop) simp
    with True prems show ?thesis
      by (intro exI[of _ "[]"] exI[of _ s]) simp
  next
    case False
    define c where "c = take (min CHUNK_SIZE remaining) f"
    have cs: "0 < CHUNK_SIZE" by (simp add: CHUNK_SIZE_def)
    have lc: "length c = min CHUNK_SIZE remaining"
      using prems(2) by (simp add: c_def)
    with False cs have ne: "c \<noteq> []" by (cases c) auto
    have "length c < 4294967296" using lc by (simp add: CHUNK_SIZE_def)
    from send_packet_ok[OF prems(1) _ _ this, of TYPE_CHUNK]
    obtain pkt where pk: "pack TYPE_CHUNK c = Inr pkt"
      and sp: "send_packet s TYPE_CHUNK c = (None, s\<lparr>outbound := outbound s @ [pkt]\<rparr>)"
      by (auto simp: TYPE_CHUNK_def)
    let ?s1 = "s\<lparr>outbound := outbound s @ [pkt]\<rparr>"
    have u: "send_chunks s f remaining = send_chunks ?s1 (drop (length c) f) (remaining - length c)"
      using send_chunks_unfold[of remaining f s] False ne sp unfolding c_def by simp
    have p1: "sends_left ?s1 = None" using prems(1) by simp
    have p2: "remaining - length c \<le> length (drop (length c) f)"
      using prems(2) by simp
    have p0: "remaining - length c < remaining" using False ne by (cases c) auto
    from less.IH[OF p0 p1 p2]
    obtain chunks pkts s' where
      ih: "send_chunks ?s1 (drop (length c) f) (remaining - length c) = (None, s')"
        "outbound s' = outbound ?s1 @ pkts" "sends_left s' = None" "inbound s' = inbound ?s1"
        "map (pack TYPE_CHUNK) chunks = map Inr pkts"
        "concat chunks = take (remaining - length c) (drop (length c) f)"
        "\<forall>c\<in>set chunks. c \<noteq> [] \<and> length c \<le> CHUNK_SIZE"
      by blast
    have cat: "concat (c # chunks) = take remaining f"
    proof -
      have "take remaining f = take (length c + (remaining - length c)) f"
        using lc by simp
      also have "\<dots> = take (length c) f @ take (remaining - length c) (drop (length c) f)"
        by (rule take_add)
      also have "take (length c) f = c" using lc by (simp add: c_def)
      finally show ?thesis using ih(6) by simp
    qed
    show ?thesis
      apply (rule exI[of _ "c # chunks"], rule exI[of _ "pkt # pkts"], rule exI[of _ s'])
      using u ih pk cat ne lc by simp
  qed
qed

subsection \<open>C5: clipping the range\<close>

text \<open>
  Claim C5, as the server has it. For a file of size \<open>S\<close>: a requested end that is
  negative or greater than \<open>S\<close> becomes \<open>S\<close>, a requested end from 0 to \<open>S\<close> is kept;
  the start is the requested start lifted to 0; so \<open>0 \<le> start\<close> and
  \<open>0 \<le> end \<le> S\<close> always hold. The start is never clipped to the file size, so
  \<open>start \<le> end\<close> holds exactly when the requested start does not exceed \<open>S\<close> (for
  a clipped end) or the requested end (for a kept end).
\<close>

theorem clip_range_bounds:
  assumes "clip_range S start_req end_req = (start, end)"
  shows "(end_req < 0 \<or> int S < end_req \<longrightarrow> end = int S)
       \<and> (0 \<le> end_req \<and> end_req \<le> int S \<longrightarrow> end = end_req)
       \<and> start = max 0 start_req \<and> 0 \<le> start \<and> 0 \<le> end \<and> end \<le> int S
       \<and> (start \<le> end \<longleftrightarrow>
            (if end_req < 0 \<or> int S < end_req then start_req \<le> int S else start_req \<le> end_req))"
  using assms by (auto simp: clip_range_def split: if_splits)

theorem clip_range_bounds_witness:
  "clip_range 10 0 (-1) = (0, 10) \<and> clip_range 10 0 10 = (0, 10) \<and> clip_range 10 0 110 = (0, 10)
   \<and> clip_range 10 3 7 = (3, 7) \<and> clip_range 10 (-5) 7 = (0, 7)"
proof -
  have e: "clip_range 10 0 (-1) = (0, 10)" "clip_range 10 0 10 = (0, 10)"
    "clip_range 10 0 110 = (0, 10)" "clip_range 10 3 7 = (3, 7)" "clip_range 10 (-5) 7 = (0, 7)"
    by (simp_all add: clip_range_def)
  from clip_range_bounds[OF e(1)] clip_range_bounds[OF e(4)] e show ?thesis by simp
qed

text \<open>
  The invariant \<open>start \<le> end\<close> of the claim fails for a start beyond the end of the
  file: the request \<^verbatim>\<open>"a.txt|20|-1"\<close> on a file of ten bytes gives the range from 20
  to 10.
\<close>

theorem clip_range_start_beyond_size_counterexample:
  "clip_range 10 20 (-1) = (20, 10)
   \<and> \<not> fst (clip_range 10 20 (-1)) \<le> snd (clip_range 10 20 (-1))"
  by (simp add: clip_range_def)

subsection \<open>C6: the chunks of a range\<close>

lemma handle_get_stream:
  assumes "split_sep CHR ''|'' (decode_replace lib payload) = [path, start_str, end_str]"
    and "safe_path root_dir cwd path = Inr full_path"
    and "isfile fs full_path" and "stat fs full_path = Some st"
    and "to_int lib start_str = Some start_req" and "to_int lib end_str = Some end_req"
    and "clip_range (st_size st) start_req end_req = (start, end)"
  shows "handle_get lib root_dir cwd fs s payload
           = stream_range lib fs s full_path (st_size st) start end"
  using assms by (simp add: handle_get_def)

lemma meta_sent:
  assumes "sends_left s = None" and "sz < 2 ^ 64"
  shows "\<exists>meta. pack TYPE_META (ascii_bytes (str_nat sz)) = Inr meta
           \<and> send_packet s TYPE_META (ascii_bytes (str_nat sz))
               = (None, s\<lparr>outbound := outbound s @ [meta]\<rparr>)"
  using send_packet_ok[OF assms(1) _ _ length_meta[OF assms(2)], of TYPE_META]
  by (simp add: TYPE_META_def)

text \<open>
  Claim C6. A \<^verbatim>\<open>GET\<close> whose clipped range is not empty, on a file that holds at least
  \<open>end\<close> bytes when it is read, to a peer that keeps reading: the handler finishes
  without an exception and has sent the size report followed by chunk packets whose
  payloads, concatenated, are exactly the bytes from \<open>start\<close> to \<open>end\<close>; their lengths
  add up to \<open>end - start\<close> and none is longer than \<^verbatim>\<open>CHUNK_SIZE\<close>, 1 MiB.
\<close>

theorem get_streams_whole_range:
  assumes "split_sep CHR ''|'' (decode_replace lib payload) = [path, start_str, end_str]"
    and "safe_path root_dir cwd path = Inr full_path"
    and "isfile fs full_path" and "stat fs full_path = Some st"
    and "to_int lib start_str = Some start_req" and "to_int lib end_str = Some end_req"
    and "clip_range (st_size st) start_req end_req = (start, end)"
    and "start < end"
    and "open_rb fs full_path = Some content" and "nat end \<le> length content"
    and "sends_left s = None" and "st_size st < 2 ^ 64"
  shows "\<exists>meta chunks pkts s'.
           handle_get lib root_dir cwd fs s payload = (None, s')
         \<and> outbound s' = outbound s @ meta # pkts
         \<and> pack TYPE_META (ascii_bytes (str_nat (st_size st))) = Inr meta
         \<and> map (pack TYPE_CHUNK) chunks = map Inr pkts
         \<and> sum_list (map length chunks) = nat (end - start)
         \<and> (\<forall>c\<in>set chunks. length c \<le> 1024 * 1024)
         \<and> concat chunks = take (nat (end - start)) (drop (nat start) content)"
proof -
  from assms(7) have s0: "0 \<le> start" by (auto simp: clip_range_def)
  from meta_sent[OF assms(11,12)] obtain meta where
    m: "pack TYPE_META (ascii_bytes (str_nat (st_size st))) = Inr meta"
    and sp: "send_packet s TYPE_META (ascii_bytes (str_nat (st_size st)))
               = (None, s\<lparr>outbound := outbound s @ [meta]\<rparr>)"
    by blast
  let ?s1 = "s\<lparr>outbound := outbound s @ [meta]\<rparr>"
  let ?f = "drop (nat start) content"
  have p1: "sends_left ?s1 = None" using assms(11) by simp
  have p2: "nat (end - start) \<le> length ?f"
    using assms(8,10) s0 by simp
  from send_chunks_complete[OF p1 p2] obtain chunks pkts s' where
    c: "send_chunks ?s1 ?f (nat (end - start)) = (None, s')"
       "outbound s' = outbound ?s1 @ pkts"
       "map (pack TYPE_CHUNK) chunks = map Inr pkts"
       "concat chunks = take (nat (end - start)) ?f"
       "\<forall>c\<in>set chunks. c \<noteq> [] \<and> length c \<le> CHUNK_SIZE"
    by blast
  have "handle_get lib root_dir cwd fs s payload = (None, s')"
    using handle_get_stream[OF assms(1-7)] sp assms(8,9) c(1)
    by (simp add: stream_range_def)
  moreover have "sum_list (map length chunks) = nat (end - start)"
  proof -
    have "sum_list (map length chunks) = length (concat chunks)"
      by (simp add: length_concat)
    also have "\<dots> = nat (end - start)" using c(4) p2 by simp
    finally show ?thesis .
  qed
  moreover have "\<forall>c\<in>set chunks. length c \<le> 1024 * 1024"
    using c(5) by (simp add: CHUNK_SIZE_def)
  ultimately show ?thesis using c(2,3,4) m by auto
qed

lemmas demo_eval = ascii_lib_def ascii_bytes_def ascii_to_int_def char_of_def bit_Suc_0_iff
  demo_fs_def clip_range_def

theorem get_streams_whole_range_witness:
  "handle_get ascii_lib ''/srv/files'' ''/'' demo_fs
      \<lparr>inbound = [], outbound = [], sends_left = None\<rparr> (ascii_bytes ''a.txt|2|7'')
     = (None, \<lparr>inbound = [],
               outbound = [[0x4C, 0x44, 0x54, 0x31, 4, 0, 0, 0, 2, 0x31, 0x30],
                           [0x4C, 0x44, 0x54, 0x31, 5, 0, 0, 0, 5, 0x32, 0x33, 0x34, 0x35, 0x36]],
               sends_left = None\<rparr>)
   \<and> (\<exists>meta chunks pkts s'.
          handle_get ascii_lib ''/srv/files'' ''/'' demo_fs
            \<lparr>inbound = [], outbound = [], sends_left = None\<rparr> (ascii_bytes ''a.txt|2|7'')
            = (None, s')
        \<and> outbound s' = [] @ meta # pkts
        \<and> pack TYPE_META (ascii_bytes (str_nat 10)) = Inr meta
        \<and> map (pack TYPE_CHUNK) chunks = map Inr pkts
        \<and> sum_list (map length chunks) = nat (7 - 2)
        \<and> (\<forall>c\<in>set chunks. length c \<le> 1024 * 1024)
        \<and> concat chunks
            = take (nat (7 - 2))
                (drop (nat 2) [0x30, 0x31, 0x32, 0x33, 0x34, 0x35, 0x36, 0x37, 0x38, 0x39]))"
proof -
  let ?s = "\<lparr>inbound = [], outbound = [], sends_left = None\<rparr> :: sock"
  let ?st = "\<lparr>st_size = 10, st_mtime = 1700000000\<rparr>"
  have h1: "split_sep CHR ''|'' (decode_replace ascii_lib (ascii_bytes ''a.txt|2|7''))
              = [''a.txt'', ''2'', ''7'']"
    by (simp add: demo_eval)
  have h2: "safe_path ''/srv/files'' ''/'' ''a.txt'' = Inr ''/srv/files/a.txt''"
    by (simp add: path_eval)
  have h3: "isfile demo_fs ''/srv/files/a.txt''" by (simp add: demo_eval)
  have h4: "stat demo_fs ''/srv/files/a.txt'' = Some ?st" by (simp add: demo_eval)
  have h5: "to_int ascii_lib ''2'' = Some 2" by (simp add: demo_eval)
  have h6: "to_int ascii_lib ''7'' = Some 7" by (simp add: demo_eval)
  have h7: "clip_range (st_size ?st) 2 7 = (2, 7)" by (simp add: demo_eval)
  have h9: "open_rb demo_fs ''/srv/files/a.txt''
              = Some [0x30, 0x31, 0x32, 0x33, 0x34, 0x35, 0x36, 0x37, 0x38, 0x39]"
    by (simp add: demo_eval)
  have sn: "str_nat 10 = ''10''"
    by (simp add: str_nat.simps char_of_def bit_Suc_0_iff)
  have ev: "handle_get ascii_lib ''/srv/files'' ''/'' demo_fs ?s (ascii_bytes ''a.txt|2|7'')
     = (None, \<lparr>inbound = [],
               outbound = [[0x4C, 0x44, 0x54, 0x31, 4, 0, 0, 0, 2, 0x31, 0x30],
                           [0x4C, 0x44, 0x54, 0x31, 5, 0, 0, 0, 5, 0x32, 0x33, 0x34, 0x35, 0x36]],
               sends_left = None\<rparr>)"
    unfolding handle_get_stream[OF h1 h2 h3 h4 h5 h6 h7]
    by (simp add: stream_range_def send_packet_def sendall_def pack_def struct_pack_BI_def
        be32_def MAGIC_def TYPE_META_def TYPE_CHUNK_def CHUNK_SIZE_def h9 sn ascii_bytes_def
        send_chunks.simps)
  from get_streams_whole_range[OF h1 h2 h3 h4 h5 h6 h7 _ h9, of ?s] ev
  show ?thesis by simp
qed

subsection \<open>C9: a range that is empty after clipping\<close>

text \<open>
  Claim C9. A \<^verbatim>\<open>GET\<close> on an existing regular file whose start is not below the
  clipped end (a start beyond the size of the file, for one, since the start is never
  clipped to it), to a peer that keeps reading: the handler sends the size report
  and nothing else, raises nothing, and the loop of \<^verbatim>\<open>handle_client\<close> goes on to read
  the next packet from the same connection.
\<close>

theorem get_empty_range:
  assumes "split_sep CHR ''|'' (decode_replace lib payload) = [path, start_str, end_str]"
    and "safe_path root_dir cwd path = Inr full_path"
    and "isfile fs full_path" and "stat fs full_path = Some st"
    and "to_int lib start_str = Some start_req" and "to_int lib end_str = Some end_req"
    and "clip_range (st_size st) start_req end_req = (start, end)"
    and "end \<le> start"
    and "sends_left s = None" and "st_size st < 2 ^ 64"
  shows "\<exists>meta. pack TYPE_META (ascii_bytes (str_nat (st_size st))) = Inr meta
           \<and> handle_request lib root_dir cwd fs s TYPE_GET payload
               = (None, s\<lparr>outbound := outbound s @ [meta]\<rparr>)
           \<and> (\<forall>s0. recv_packet s0 = Inr ((TYPE_GET, payload), s) \<longrightarrow>
                 handle_client lib root_dir cwd fs s0
                   = handle_client lib root_dir cwd fs (s\<lparr>outbound := outbound s @ [meta]\<rparr>))"
proof -
  from meta_sent[OF assms(9,10)] obtain meta where
    m: "pack TYPE_META (ascii_bytes (str_nat (st_size st))) = Inr meta"
    and sp: "send_packet s TYPE_META (ascii_bytes (str_nat (st_size st)))
               = (None, s\<lparr>outbound := outbound s @ [meta]\<rparr>)"
    by blast
  have g: "handle_get lib root_dir cwd fs s payload = (None, s\<lparr>outbound := outbound s @ [meta]\<rparr>)"
    using handle_get_stream[OF assms(1-7)] sp assms(8) by (simp add: stream_range_def)
  then have r: "handle_request lib root_dir cwd fs s TYPE_GET payload
                  = (None, s\<lparr>outbound := outbound s @ [meta]\<rparr>)"
    by (simp add: handle_request_def TYPE_GET_def TYPE_LIST_def)
  have "handle_client lib root_dir cwd fs s0
          = handle_client lib root_dir cwd fs (s\<lparr>outbound := outbound s @ [meta]\<rparr>)"
    if "recv_packet s0 = Inr ((TYPE_GET, payload), s)" for s0
    using that r by (subst handle_client.simps) simp
  with m r show ?thesis by blast
qed

theorem get_empty_range_witness:
  "clip_range 10 20 (-1) = (20, 10)
   \<and> (\<exists>meta. pack TYPE_META (ascii_bytes (str_nat 10)) = Inr meta
        \<and> handle_request ascii_lib ''/srv/files'' ''/'' demo_fs
             \<lparr>inbound = [], outbound = [], sends_left = None\<rparr> TYPE_GET
             (ascii_bytes ''a.txt|20|-1'')
            = (None, \<lparr>inbound = [], outbound = [meta], sends_left = None\<rparr>))
   \<and> handle_request ascii_lib ''/srv/files'' ''/'' demo_fs
        \<lparr>inbound = [], outbound = [], sends_left = None\<rparr> TYPE_GET (ascii_bytes ''a.txt|20|-1'')
       = (None, \<lparr>inbound = [],
                 outbound = [[0x4C, 0x44, 0x54, 0x31, 4, 0, 0, 0, 2, 0x31, 0x30]],
                 sends_left = None\<rparr>)"
proof -
  let ?s = "\<lparr>inbound = [], outbound = [], sends_left = None\<rparr> :: sock"
  let ?st = "\<lparr>st_size = 10, st_mtime = 1700000000\<rparr>"
  have h1: "split_sep CHR ''|'' (decode_replace ascii_lib (ascii_bytes ''a.txt|20|-1''))
              = [''a.txt'', ''20'', ''-1'']"
    by (simp add: demo_eval)
  have h2: "safe_path ''/srv/files'' ''/'' ''a.txt'' = Inr ''/srv/files/a.txt''"
    by (simp add: path_eval)
  have h3: "isfile demo_fs ''/srv/files/a.txt''" by (simp add: demo_eval)
  have h4: "stat demo_fs ''/srv/files/a.txt'' = Some ?st" by (simp add: demo_eval)
  have h5: "to_int ascii_lib ''20'' = Some 20" by (simp add: demo_eval)
  have h6: "to_int ascii_lib ''-1'' = Some (-1)" by (simp add: demo_eval)
  have h7: "clip_range (st_size ?st) 20 (-1) = (20, 10)" by (simp add: demo_eval)
  have sn: "str_nat 10 = ''10''"
    by (simp add: str_nat.simps char_of_def bit_Suc_0_iff)
  have pk: "pack TYPE_META (ascii_bytes (str_nat 10))
              = Inr [0x4C, 0x44, 0x54, 0x31, 4, 0, 0, 0, 2, 0x31, 0x30]"
    by (simp add: sn ascii_bytes_def pack_def struct_pack_BI_def be32_def MAGIC_def TYPE_META_def)
  from get_empty_range[OF h1 h2 h3 h4 h5 h6 h7, of ?s] h7 pk
  show ?thesis by simp
qed

subsection \<open>C10: the listing the client keeps\<close>

lemma parse_line_cases:
  "parse_line lib l =
     (if record_line l then
        (case line_item lib l of
           None \<Rightarrow> Inl (Exn ValueError ''invalid literal for int()'')
         | Some i \<Rightarrow> Inr (Some i))
      else Inr None)"
proof (cases "blank l")
  case True
  then show ?thesis by (simp add: parse_line_def record_line_def)
next
  case False
  show ?thesis
  proof (cases "\<exists>n d sz mt. split_sep CHR ''|'' l = [n, d, sz, mt]")
    case True
    then obtain n d sz mt where sp: "split_sep CHR ''|'' l = [n, d, sz, mt]" by blast
    with False show ?thesis
      by (simp add: parse_line_def record_line_def line_item_def split: option.splits)
  next
    case False
    have len: "length (split_sep CHR ''|'' l) \<noteq> 4"
    proof
      assume "length (split_sep CHR ''|'' l) = 4"
      then obtain n d sz mt where "split_sep CHR ''|'' l = [n, d, sz, mt]"
        by (auto simp: length_Suc_conv numeral_eq_Suc)
      with False show False by blast
    qed
    from False have "parse_line lib l = Inr None"
      by (auto simp: parse_line_def split: list.splits)
    with len show ?thesis by (simp add: record_line_def)
  qed
qed

lemma kept_lines_Cons:
  "kept_lines lib (l # ls) =
     (if blank l then kept_lines lib ls
      else case line_item lib l of None \<Rightarrow> kept_lines lib ls | Some i \<Rightarrow> i # kept_lines lib ls)"
  by (simp add: kept_lines_def List.map_filter_def split: option.splits)

lemma line_item_record: "line_item lib l = Some i \<Longrightarrow> length (split_sep CHR ''|'' l) = 4"
  by (auto simp: line_item_def split: list.splits)

lemma parse_lines_result:
  "parse_lines lib ls acc =
     (if \<forall>l\<in>set ls. record_line l \<longrightarrow> line_item lib l \<noteq> None
      then Inr (acc @ kept_lines lib ls)
      else Inl (Exn ValueError ''invalid literal for int()''))"
proof (induction ls arbitrary: acc)
  case Nil
  show ?case by (simp add: kept_lines_def List.map_filter_def)
next
  case (Cons l ls)
  show ?case
  proof (cases "record_line l")
    case False
    then have "parse_line lib l = Inr None" by (simp add: parse_line_cases)
    moreover have "kept_lines lib (l # ls) = kept_lines lib ls"
      using False line_item_record[of lib l]
      by (cases "line_item lib l") (auto simp: kept_lines_Cons record_line_def)
    ultimately show ?thesis using False Cons.IH[of acc] by simp
  next
    case True
    show ?thesis
    proof (cases "line_item lib l")
      case None
      with True have "parse_line lib l = Inl (Exn ValueError ''invalid literal for int()'')"
        by (simp add: parse_line_cases)
      with True None show ?thesis by auto
    next
      case (Some i)
      with True have "parse_line lib l = Inr (Some i)" by (simp add: parse_line_cases)
      moreover have "kept_lines lib (l # ls) = i # kept_lines lib ls"
        using True Some by (simp add: kept_lines_Cons record_line_def)
      ultimately show ?thesis using True Some Cons.IH[of "acc @ [i]"] by simp
    qed
  qed
qed

text \<open>
  Claim C10, as the clients have it. Of the lines of a \<^verbatim>\<open>LIST_RESP\<close> payload, a blank
  line and a line that does not split into exactly four fields are dropped silently.
  When in every remaining line the flag, the size and the time all parse as integers,
  the result consists of exactly these lines, in order. When one of them has a field
  that does not parse, \<^verbatim>\<open>int\<close> raises and the whole listing is lost: \<^verbatim>\<open>API.list\<close>
  answers with a failure and \<^verbatim>\<open>list_directory\<close> with the empty list.
\<close>

theorem listing_kept_or_lost:
  "(if \<forall>l\<in>set (splitlines (decode_ignore lib data)).
          record_line l \<longrightarrow> line_item lib l \<noteq> None
    then parse_listing lib TYPE_LIST_RESP data
           = Inr (kept_lines lib (splitlines (decode_ignore lib data)))
       \<and> api_list_reply lib TYPE_LIST_RESP data
           = Success (kept_lines lib (splitlines (decode_ignore lib data)))
       \<and> list_directory_reply lib TYPE_LIST_RESP data
           = kept_lines lib (splitlines (decode_ignore lib data))
    else parse_listing lib TYPE_LIST_RESP data
           = Inl (Exn ValueError ''invalid literal for int()'')
       \<and> api_list_reply lib TYPE_LIST_RESP data = Failure ''invalid literal for int()''
       \<and> list_directory_reply lib TYPE_LIST_RESP data = [])"
  by (simp add: parse_listing_def api_list_reply_def list_directory_reply_def
      parse_lines_result)

lemmas listing_eval = parse_listing_def api_list_reply_def list_directory_reply_def
  splitlines_def is_linebreak_def is_space_def blank_def parse_line_def kept_lines_def
  line_item_def record_line_def List.map_filter_def TYPE_LIST_RESP_def

theorem listing_kept_or_lost_witness:
  "parse_listing ascii_lib TYPE_LIST_RESP (ascii_bytes ''a|0|1|2\<newline>  \<newline>x|y|1|0|3\<newline>c|1|0|5'')
     = Inr [\<lparr>i_name = ''a'', i_dir = False, i_size = 1, i_mtime = 2\<rparr>,
            \<lparr>i_name = ''c'', i_dir = True, i_size = 0, i_mtime = 5\<rparr>]
   \<and> api_list_reply ascii_lib TYPE_LIST_RESP (ascii_bytes ''a|0|1|2\<newline>b|0|x|3'')
     = Failure ''invalid literal for int()''"
proof -
  have d1: "decode_ignore ascii_lib (ascii_bytes ''a|0|1|2\<newline>  \<newline>x|y|1|0|3\<newline>c|1|0|5'')
              = ''a|0|1|2\<newline>  \<newline>x|y|1|0|3\<newline>c|1|0|5''"
    by (simp add: demo_eval)
  have d2: "decode_ignore ascii_lib (ascii_bytes ''a|0|1|2\<newline>b|0|x|3'') = ''a|0|1|2\<newline>b|0|x|3''"
    by (simp add: demo_eval)
  have l1: "splitlines ''a|0|1|2\<newline>  \<newline>x|y|1|0|3\<newline>c|1|0|5''
              = [''a|0|1|2'', ''  '', ''x|y|1|0|3'', ''c|1|0|5'']"
    by (simp add: splitlines_def is_linebreak_def)
  have l2: "splitlines ''a|0|1|2\<newline>b|0|x|3'' = [''a|0|1|2'', ''b|0|x|3'']"
    by (simp add: splitlines_def is_linebreak_def)
  from listing_kept_or_lost[of ascii_lib "ascii_bytes ''a|0|1|2\<newline>  \<newline>x|y|1|0|3\<newline>c|1|0|5''"]
  have 1: "parse_listing ascii_lib TYPE_LIST_RESP
             (ascii_bytes ''a|0|1|2\<newline>  \<newline>x|y|1|0|3\<newline>c|1|0|5'')
     = Inr [\<lparr>i_name = ''a'', i_dir = False, i_size = 1, i_mtime = 2\<rparr>,
            \<lparr>i_name = ''c'', i_dir = True, i_size = 0, i_mtime = 5\<rparr>]"
    unfolding d1 l1
    by (simp add: kept_lines_def line_item_def record_line_def blank_def is_space_def
        List.map_filter_def ascii_lib_def ascii_to_int_def)
  from listing_kept_or_lost[of ascii_lib "ascii_bytes ''a|0|1|2\<newline>b|0|x|3''"]
  have 2: "api_list_reply ascii_lib TYPE_LIST_RESP (ascii_bytes ''a|0|1|2\<newline>b|0|x|3'')
     = Failure ''invalid literal for int()''"
    unfolding d2 l2
    by (simp add: kept_lines_def line_item_def record_line_def blank_def is_space_def
        List.map_filter_def ascii_lib_def ascii_to_int_def)
  from 1 2 show ?thesis by simp
qed

text \<open>
  The claim as stated (a line is kept exactly when it has four fields with integer
  size and time, every other line is dropped without an error) fails on the payload
  \<^verbatim>\<open>"a|0|1|2\nb|0|x|3"\<close>: by the claim the first record is kept and the second
  dropped; the client raises on the second and keeps nothing.
\<close>

theorem listing_lost_counterexample:
  "kept_lines ascii_lib (splitlines ''a|0|1|2\<newline>b|0|x|3'')
     = [\<lparr>i_name = ''a'', i_dir = False, i_size = 1, i_mtime = 2\<rparr>]
   \<and> parse_listing ascii_lib TYPE_LIST_RESP (ascii_bytes ''a|0|1|2\<newline>b|0|x|3'')
     = Inl (Exn ValueError ''invalid literal for int()'')
   \<and> api_list_reply ascii_lib TYPE_LIST_RESP (ascii_bytes ''a|0|1|2\<newline>b|0|x|3'')
     = Failure ''invalid literal for int()''
   \<and> list_directory_reply ascii_lib TYPE_LIST_RESP (ascii_bytes ''a|0|1|2\<newline>b|0|x|3'') = []"
  by (simp add: listing_eval demo_eval)

subsection \<open>C1: a link that leaves the root\<close>

text \<open>
  The claim as stated (no entry outside the root is ever opened, listed or has its size
  reported) fails on a tree with a link that leaves the root. The path \<^verbatim>\<open>link\<close>
  passes the guard as \<^verbatim>\<open>/srv/files/link\<close>, and \<^verbatim>\<open>GET "link|0|-1"\<close> reports the size of
  \<^verbatim>\<open>/etc/passwd\<close> and sends its three bytes; \<^verbatim>\<open>LIST "out"\<close> lists the directory
  \<^verbatim>\<open>/etc\<close>.
\<close>

theorem link_leaves_root_counterexample:
  "safe_path ''/srv/files'' ''/'' ''link'' = Inr ''/srv/files/link''
   \<and> demo_links ''/srv/files/link'' = ''/etc/passwd''
   \<and> \<not> inside ''/srv/files'' ''/etc/passwd''
   \<and> open_rb demo_fs ''/etc/passwd'' = Some [0x72, 0x3A, 0x78]
   \<and> handle_get ascii_lib ''/srv/files'' ''/'' (follow demo_links (add_names [''link'', ''out''] demo_fs))
        \<lparr>inbound = [], outbound = [], sends_left = None\<rparr> (ascii_bytes ''link|0|-1'')
      = (None, \<lparr>inbound = [],
                outbound = [[0x4C, 0x44, 0x54, 0x31, 4, 0, 0, 0, 1, 0x33],
                            [0x4C, 0x44, 0x54, 0x31, 5, 0, 0, 0, 3, 0x72, 0x3A, 0x78]],
                sends_left = None\<rparr>)
   \<and> list_dir ''/srv/files'' ''/'' (follow demo_links (add_names [''link'', ''out''] demo_fs)) ''out''
      = [\<lparr>e_name = ''passwd'', e_dir = False, e_size = 3, e_mtime = 1600000000\<rparr>]"
proof -
  let ?s = "\<lparr>inbound = [], outbound = [], sends_left = None\<rparr> :: sock"
  let ?fs = "follow demo_links (add_names [''link'', ''out''] demo_fs)"
  let ?st = "\<lparr>st_size = 3, st_mtime = 1600000000\<rparr>"
  have p1: "safe_path ''/srv/files'' ''/'' ''link'' = Inr ''/srv/files/link''"
    by (simp add: path_eval)
  have p2: "safe_path ''/srv/files'' ''/'' ''out'' = Inr ''/srv/files/out''"
    by (simp add: path_eval)
  have l: "demo_links ''/srv/files/link'' = ''/etc/passwd''" by (simp add: demo_links_def)
  have o: "\<not> inside ''/srv/files'' ''/etc/passwd''"
    by (simp add: inside_def startswith_def join_def endswith_def suffix_to_prefix)
  have c: "open_rb demo_fs ''/etc/passwd'' = Some [0x72, 0x3A, 0x78]"
    by (simp add: demo_fs_def)
  have h1: "split_sep CHR ''|'' (decode_replace ascii_lib (ascii_bytes ''link|0|-1''))
              = [''link'', ''0'', ''-1'']"
    by (simp add: demo_eval)
  have h3: "isfile ?fs ''/srv/files/link''" by (simp add: follow_def add_names_def demo_links_def demo_fs_def)
  have h4: "stat ?fs ''/srv/files/link'' = Some ?st"
    by (simp add: follow_def add_names_def demo_links_def demo_fs_def)
  have h5: "to_int ascii_lib ''0'' = Some 0" by (simp add: demo_eval)
  have h6: "to_int ascii_lib ''-1'' = Some (-1)" by (simp add: demo_eval)
  have h7: "clip_range (st_size ?st) 0 (-1) = (0, 3)" by (simp add: clip_range_def)
  have h9: "open_rb ?fs ''/srv/files/link'' = Some [0x72, 0x3A, 0x78]"
    by (simp add: follow_def add_names_def demo_links_def demo_fs_def)
  have sn: "str_nat 3 = ''3''"
    by (simp add: str_nat.simps char_of_def bit_Suc_0_iff)
  have g: "handle_get ascii_lib ''/srv/files'' ''/'' ?fs ?s (ascii_bytes ''link|0|-1'')
      = (None, \<lparr>inbound = [],
                outbound = [[0x4C, 0x44, 0x54, 0x31, 4, 0, 0, 0, 1, 0x33],
                            [0x4C, 0x44, 0x54, 0x31, 5, 0, 0, 0, 3, 0x72, 0x3A, 0x78]],
                sends_left = None\<rparr>)"
    unfolding handle_get_stream[OF h1 p1 h3 h4 h5 h6 h7]
    by (simp add: stream_range_def send_packet_def sendall_def pack_def struct_pack_BI_def
        be32_def MAGIC_def TYPE_META_def TYPE_CHUNK_def CHUNK_SIZE_def h9 sn ascii_bytes_def
        send_chunks.simps)
  have ld: "list_dir ''/srv/files'' ''/'' ?fs ''out''
      = [\<lparr>e_name = ''passwd'', e_dir = False, e_size = 3, e_mtime = 1600000000\<rparr>]"
    by (simp add: list_dir_def list_dir_try_def p2 follow_def add_names_def demo_links_def demo_fs_def
        List.map_filter_def list_entry_def join_def startswith_def endswith_def suffix_to_prefix)
  from p1 l o c g ld show ?thesis by simp
qed

end
